theory Spec2Isabelle
  imports Main "HOL-Library.Sublist" "HOL-Library.AList"
begin

section \<open>Python values\<close>

text \<open>
  The records sampled from the index are decoded JSON: \<open>None\<close>, booleans, integers,
  floats, strings, lists and dictionaries with string keys.  The program takes
  \<open>type()\<close> and \<open>str()\<close> of a value and nothing else, so a float is carried by the
  text that Python prints for it.
\<close>

datatype pyval =
    PNone
  | PBool bool
  | PInt int
  | PFloat string
  | PStr string
  | PList "pyval list"
  | PDict "(string \<times> pyval) list"

datatype pytype = T_NoneType | T_bool | T_int | T_float | T_str | T_list | T_dict

fun type_of :: "pyval \<Rightarrow> pytype" where
  "type_of PNone = T_NoneType"
| "type_of (PBool _) = T_bool"
| "type_of (PInt _) = T_int"
| "type_of (PFloat _) = T_float"
| "type_of (PStr _) = T_str"
| "type_of (PList _) = T_list"
| "type_of (PDict _) = T_dict"

text \<open>\<open>str(t)\<close> for a type object \<open>t\<close>.\<close>

fun str_type :: "pytype \<Rightarrow> string" where
  "str_type T_NoneType = ''<class 'NoneType'>''"
| "str_type T_bool = ''<class 'bool'>''"
| "str_type T_int = ''<class 'int'>''"
| "str_type T_float = ''<class 'float'>''"
| "str_type T_str = ''<class 'str'>''"
| "str_type T_list = ''<class 'list'>''"
| "str_type T_dict = ''<class 'dict'>''"

text \<open>\<open>str(sample_type)\<close> for the local variable of type \<open>Optional[type]\<close>.\<close>

fun str_opt_type :: "pytype option \<Rightarrow> string" where
  "str_opt_type None = ''None''"
| "str_opt_type (Some t) = str_type t"

subsection \<open>Decimal text of an integer\<close>

definition digit_char :: "nat \<Rightarrow> char" where
  "digit_char d = ''0123456789abcdef'' ! d"

fun str_nat :: "nat \<Rightarrow> string" where
  "str_nat n = (if n < 10 then [digit_char n] else str_nat (n div 10) @ [digit_char (n mod 10)])"

declare str_nat.simps [simp del]

definition str_int :: "int \<Rightarrow> string" where
  "str_int i = (if i < 0 then CHR ''-'' # str_nat (nat (- i)) else str_nat (nat i))"

subsection \<open>\<open>repr\<close> of a string\<close>

text \<open>
  Python quotes a string with \<open>'\<close>, unless it contains \<open>'\<close> and no \<open>"\<close>.  The quote
  and the backslash are escaped, tab, newline and carriage return have their letter
  escapes, and every other character that is not printable is written \<open>\xNN\<close>.  The
  characters of a HOL string are the code points 0 to 255.
\<close>

definition printable :: "char \<Rightarrow> bool" where
  "printable c = (let n = (of_char c :: nat) in
     (32 \<le> n \<and> n < 127) \<or> (161 \<le> n \<and> n \<noteq> 173))"

definition escape_char :: "char \<Rightarrow> char \<Rightarrow> string" where
  "escape_char quote c =
     (if c = quote \<or> c = CHR 0x5C then [CHR 0x5C, c]
      else if c = CHR 0x09 then [CHR 0x5C, CHR ''t'']
      else if c = CHR 0x0A then [CHR 0x5C, CHR ''n'']
      else if c = CHR 0x0D then [CHR 0x5C, CHR ''r'']
      else if \<not> printable c then
        [CHR 0x5C, CHR ''x'', digit_char (of_char c div 16), digit_char (of_char c mod 16)]
      else [c])"

definition repr_str :: "string \<Rightarrow> string" where
  "repr_str s =
     (let quote = (if CHR 0x27 \<in> set s \<and> CHR 0x22 \<notin> set s then CHR 0x22 else CHR 0x27)
      in quote # concat (map (escape_char quote) s) @ [quote])"

subsection \<open>\<open>repr\<close> and \<open>str\<close> of a value\<close>

fun join :: "string \<Rightarrow> string list \<Rightarrow> string" where
  "join sep [] = []"
| "join sep [x] = x"
| "join sep (x # y # ys) = x @ sep @ join sep (y # ys)"

fun repr :: "pyval \<Rightarrow> string" where
  "repr PNone = ''None''"
| "repr (PBool b) = (if b then ''True'' else ''False'')"
| "repr (PInt i) = str_int i"
| "repr (PFloat f) = f"
| "repr (PStr s) = repr_str s"
| "repr (PList xs) = ''['' @ join '', '' (map repr xs) @ '']''"
| "repr (PDict kvs) =
     ''{'' @ join '', '' (map (\<lambda>kv. repr_str (fst kv) @ '': '' @ repr (snd kv)) kvs) @ ''}''"

fun str :: "pyval \<Rightarrow> string" where
  "str (PStr s) = s"
| "str v = repr v"

section \<open>sycamore.query.schema\<close>

subsection \<open>Schema types\<close>

text \<open>
  Modelled from the spec: \<open>sycamore.schema.SchemaField\<close> and \<open>Schema\<close> are imported
  by the module and not defined in it.  A field entry has a name, a type, an optional
  description and optional examples; a \<open>Schema\<close> is a list of entries.  The examples
  of an entry built by \<open>get_schema\<close> are \<open>list(samples)\<close> for a set \<open>samples\<close>, whose
  order Python does not fix, so the model keeps the set.
\<close>

record SchemaField =
  name :: string
  field_type :: string
  description :: "string option"
  examples :: "string set option"

record Schema =
  schema_fields :: "SchemaField list"

text \<open>\<open>OpenSearchSchemaField\<close> is a \<open>SchemaField\<close> whose name defaults to \<open>"default"\<close>.\<close>

definition OpenSearchSchemaField ::
  "string \<Rightarrow> string option \<Rightarrow> string set option \<Rightarrow> SchemaField" where
  "OpenSearchSchemaField ft descr ex =
     \<lparr>name = ''default'', field_type = ft, description = descr, examples = ex\<rparr>"

text \<open>
  \<open>OpenSearchSchema.fields\<close> is a dictionary from field name to entry; the association
  list keeps the insertion order that \<open>items()\<close> iterates in.  The record package
  takes the name \<open>fields\<close> for itself, so the attribute is \<open>os_fields\<close> here, and
  \<open>Schema.fields\<close> is \<open>schema_fields\<close>.
\<close>

record OpenSearchSchema =
  os_fields :: "(string \<times> SchemaField) list"

text \<open>The loop of \<open>to_schema\<close>: one entry appended per item, with the key as its name.\<close>

fun to_schema_loop ::
  "(string \<times> SchemaField) list \<Rightarrow> SchemaField list \<Rightarrow> SchemaField list" where
  "to_schema_loop [] acc = acc"
| "to_schema_loop ((field_name, field) # items) acc =
     to_schema_loop items (acc @ [field\<lparr>name := field_name\<rparr>])"

definition to_schema :: "OpenSearchSchema \<Rightarrow> Schema" where
  "to_schema self = \<lparr>schema_fields = to_schema_loop (os_fields self) []\<rparr>"

subsection \<open>Logging, errors and the collaborators\<close>

datatype log_record = DEBUG string | WARNING string

datatype error = KeyError | StopIteration

text \<open>
  Modelled from the spec: \<open>sycamore.utils.nested.dotted_lookup\<close> is not part of the
  module.  A lookup of a field path in a record either fails structurally, which the
  caller handles as \<open>KeyError\<close>, or resolves to a value, possibly \<open>None\<close>.  The
  function itself is a parameter of the model.
\<close>

datatype lookup = Unresolvable | Resolved pyval

type_synonym dotted_lookup = "pyval \<Rightarrow> string \<Rightarrow> lookup"

text \<open>
  One reading of the lookup, used to run the model on concrete records: the path is
  split at its dots and followed through nested dictionaries; a missing last segment
  is \<open>None\<close>, a missing or non-dictionary intermediate segment is a structural failure.
\<close>

fun split_dots :: "string \<Rightarrow> string \<Rightarrow> string list" where
  "split_dots acc [] = [acc]"
| "split_dots acc (c # cs) =
     (if c = CHR ''.'' then acc # split_dots [] cs else split_dots (acc @ [c]) cs)"

fun lookup_path :: "pyval \<Rightarrow> string list \<Rightarrow> lookup" where
  "lookup_path raw [] = Resolved raw"
| "lookup_path (PDict d) (k # ks) =
     (case map_of d k of
        None \<Rightarrow> (if ks = [] then Resolved PNone else Unresolvable)
      | Some v \<Rightarrow> lookup_path v ks)"
| "lookup_path _ (k # ks) = Unresolvable"

definition nested_lookup :: dotted_lookup where
  "nested_lookup raw keys = lookup_path raw (split_dots [] keys)"

text \<open>
  A hit of the sampling query is a dictionary; the program reads its \<open>"_source"\<close>.
  One entry of the field-mapping response carries the \<open>"mappings"\<close> dictionary of one
  index, from field path to mapping metadata.
\<close>

type_synonym hit = "(string \<times> pyval) list"

record index_mapping =
  mappings :: "(string \<times> pyval) list"

subsection \<open>\<open>OpenSearchSchemaFetcher.get_schema\<close>\<close>

definition NUM_EXAMPLE_VALUES :: nat where
  "NUM_EXAMPLE_VALUES = 5"

definition startswith :: "string \<Rightarrow> string \<Rightarrow> bool" where
  "startswith s p = (take (length p) s = p)"

definition endswith :: "string \<Rightarrow> string \<Rightarrow> bool" where
  "endswith s p = (length p \<le> length s \<and> drop (length s - length p) s = p)"

text \<open>The local variables of the body of the loop over the keys.\<close>

record locals =
  samples :: "string set"
  sample_type :: "pytype option"
  warnings :: "string \<rightharpoonup> bool"

definition initial_locals :: locals where
  "initial_locals = \<lparr>samples = {}, sample_type = None, warnings = Map.empty\<rparr>"

text \<open>
  The body of \<open>if sample_value is not None\<close>: the type of the value is reconciled with
  the type seen so far, and the string of the value joins the samples.  The result is
  the new local state and the records logged.
\<close>

definition add_sample_value ::
  "string \<Rightarrow> pyval \<Rightarrow> locals \<Rightarrow> locals \<times> log_record list" where
  "add_sample_value key sample_value st =
     (case sample_type st of
        None \<Rightarrow>
          (st\<lparr>sample_type := Some (type_of sample_value),
              samples := insert (str sample_value) (samples st)\<rparr>, [])
      | Some cur \<Rightarrow>
          (let t = type_of sample_value in
           if cur = T_int \<and> t = T_float then
             (st\<lparr>sample_type := Some t,
                 samples := insert (str sample_value) (samples st)\<rparr>, [])
           else if cur = T_float \<and> t = T_int then
             (st\<lparr>samples := insert (str sample_value) (samples st)\<rparr>, [])
           else if cur = T_list \<and> t \<noteq> T_list then
             (st\<lparr>samples := insert (str (PList [sample_value])) (samples st)\<rparr>, [])
           else if cur \<noteq> T_list \<and> t = T_list then
             (st\<lparr>sample_type := Some t,
                 samples := insert (str sample_value)
                              ((\<lambda>x. str (PList [PStr x])) ` samples st)\<rparr>, [])
           else if cur \<noteq> t then
             (st\<lparr>warnings := (if warnings st key = None then (warnings st)(key \<mapsto> True)
                               else warnings st),
                 sample_type := Some T_str,
                 samples := insert (str sample_value) ((\<lambda>x. str (PStr x)) ` samples st)\<rparr>,
              if warnings st key = None then
                [WARNING (''Got multiple sample types for schema field'' @ '' '' @ key @ '': ''
                          @ str_type cur @ '' and '' @ str_type t @ ''. Promoting to str.'')]
              else [])
           else
             (st\<lparr>samples := insert (str sample_value) (samples st)\<rparr>, [])))"

text \<open>
  \<open>sample_value = dotted_lookup(sample["_source"], key)\<close>: a hit without \<open>"_source"\<close>
  and a structural failure of the lookup both raise \<open>KeyError\<close>.
\<close>

definition lookup_sample_value :: "dotted_lookup \<Rightarrow> string \<Rightarrow> hit \<Rightarrow> error + pyval" where
  "lookup_sample_value lk key sample =
     (case map_of sample ''_source'' of
        None \<Rightarrow> Inl KeyError
      | Some source \<Rightarrow>
          (case lk source key of
             Unresolvable \<Rightarrow> Inl KeyError
           | Resolved sample_value \<Rightarrow> Inr sample_value))"

text \<open>
  \<open>for sample in random_sample\<close>.  The loop leaves at the cap; an exception ends it
  with what was logged before.
\<close>

fun sample_loop ::
  "dotted_lookup \<Rightarrow> string \<Rightarrow> hit list \<Rightarrow> locals \<Rightarrow> (error + locals) \<times> log_record list" where
  "sample_loop lk key [] st = (Inr st, [])"
| "sample_loop lk key (sample # random_sample) st =
     (if card (samples st) \<ge> NUM_EXAMPLE_VALUES then (Inr st, [])
      else
        (case lookup_sample_value lk key sample of
           Inl e \<Rightarrow> (Inl e, [])
         | Inr sample_value \<Rightarrow>
             (if sample_value \<noteq> PNone then
                (let (st', logged) = add_sample_value key sample_value st;
                     (r, logged') = sample_loop lk key random_sample st'
                 in (r, logged @ logged'))
              else sample_loop lk key random_sample st)))"

text \<open>
  \<open>for key in one_schema["mappings"].keys()\<close>, with the result built so far.  Only
  \<open>KeyError\<close> is caught by the handler of the body.
\<close>

fun key_loop ::
  "dotted_lookup \<Rightarrow> hit list \<Rightarrow> string list \<Rightarrow> OpenSearchSchema
     \<Rightarrow> (error + OpenSearchSchema) \<times> log_record list" where
  "key_loop lk random_sample [] result = (Inr result, [])"
| "key_loop lk random_sample (key # keys) result =
     (if endswith key ''.keyword'' then
        (let (r, logged) = key_loop lk random_sample keys result
         in (r, DEBUG (''  Ignoring redundant exact match .keyword key '' @ key) # logged))
      else if \<not> startswith key ''properties.'' then
        (let (r, logged) = key_loop lk random_sample keys result
         in (r, DEBUG (''  Ignoring non-properties key '' @ key
                        @ '' as they are likely not from sycamore'') # logged))
      else
        (let attempt = DEBUG (''  Attempting to get samples for key '' @ key) in
         case sample_loop lk key random_sample initial_locals of
           (Inl KeyError, logged) \<Rightarrow>
             (let (r, logged') = key_loop lk random_sample keys result
              in (r, attempt # logged
                     @ DEBUG (''  Error retrieving samples for '' @ key) # logged'))
         | (Inl StopIteration, logged) \<Rightarrow> (Inl StopIteration, attempt # logged)
         | (Inr st, logged) \<Rightarrow>
             (if card (samples st) > 0 then
                (let result' = result\<lparr>os_fields :=
                       AList.update key
                         (OpenSearchSchemaField (str_opt_type (sample_type st)) None
                            (Some (samples st)))
                         (os_fields result)\<rparr>;
                     (r, logged') = key_loop lk random_sample keys result'
                 in (r, attempt # logged
                        @ DEBUG (''  Got samples for '' @ key @ '' of type ''
                                 @ str_opt_type (sample_type st)) # logged'))
              else
                (let (r, logged') = key_loop lk random_sample keys result
                 in (r, attempt # logged
                        @ DEBUG (''  No samples for '' @ key @ ''; ignoring key'') # logged')))))"

text \<open>
  \<open>get_schema\<close>, from the two answers of the collaborators: the field-mapping response
  (index name to mapping) and the hits of the sampling query.  \<open>next(iter(...))\<close> on an
  empty response raises \<open>StopIteration\<close>.
\<close>

definition get_schema ::
  "dotted_lookup \<Rightarrow> string \<Rightarrow> (string \<times> index_mapping) list \<Rightarrow> hit list
     \<Rightarrow> (error + OpenSearchSchema) \<times> log_record list" where
  "get_schema lk index schema random_sample =
     (let start = DEBUG (''Getting schema for index '' @ index);
          result = \<lparr>os_fields =
                     [(''text_representation'',
                       OpenSearchSchemaField ''<class 'str'>''
                         (Some ''Can be assumed to have all other details'') None)]\<rparr>
      in case schema of
           [] \<Rightarrow> (Inl StopIteration, [start])
         | (_, one_schema) # _ \<Rightarrow>
             (let (r, logged) = key_loop lk random_sample (map fst (mappings one_schema)) result
              in (r, start # logged)))"

subsection \<open>The two guards and the body of the key loop\<close>

text \<open>The keys that pass the two \<open>continue\<close> guards at the head of the key loop.\<close>

definition eligible :: "string \<Rightarrow> bool" where
  "eligible key = (\<not> endswith key ''.keyword'' \<and> startswith key ''properties.'')"

text \<open>
  What the \<open>try\<close> body assigns to \<open>result.fields[key]\<close> for one key, if anything: the
  entry when the sample loop ends normally with a sample, nothing when it ends with no
  sample or with an exception.
\<close>

definition sampled_field :: "dotted_lookup \<Rightarrow> hit list \<Rightarrow> string \<Rightarrow> SchemaField option" where
  "sampled_field lk random_sample key =
     (case fst (sample_loop lk key random_sample initial_locals) of
        Inl e \<Rightarrow> None
      | Inr st \<Rightarrow>
          (if card (samples st) > 0 then
             Some (OpenSearchSchemaField (str_opt_type (sample_type st)) None (Some (samples st)))
           else None))"

text \<open>The entry \<open>get_schema\<close> starts the result with.\<close>

definition text_representation_field :: SchemaField where
  "text_representation_field =
     OpenSearchSchemaField ''<class 'str'>'' (Some ''Can be assumed to have all other details'') None"

text \<open>
  The pairs of the type seen so far and the type of a new value that reach the last
  \<open>elif\<close> of the reconciliation, \<open>sample_type != t\<close>: the types differ and none of
  the four branches before it applies.
\<close>

definition incompatible :: "pytype \<Rightarrow> pytype \<Rightarrow> bool" where
  "incompatible cur t =
     (\<not> (cur = T_int \<and> t = T_float) \<and> \<not> (cur = T_float \<and> t = T_int)
      \<and> \<not> (cur = T_list \<and> t \<noteq> T_list) \<and> \<not> (cur \<noteq> T_list \<and> t = T_list)
      \<and> cur \<noteq> t)"

fun is_warning :: "log_record \<Rightarrow> bool" where
  "is_warning (WARNING _) = True"
| "is_warning (DEBUG _) = False"

text \<open>Whether a warning has been logged for the key: 1 if \<open>key in warnings\<close>, else 0.\<close>

definition warned :: "locals \<Rightarrow> string \<Rightarrow> nat" where
  "warned st key = (if warnings st key = None then 0 else 1)"

text \<open>
  A hit whose source is \<open>{"properties": {field: v}}\<close>, for running the model on
  concrete samples.
\<close>

definition properties_hit :: "string \<Rightarrow> pyval \<Rightarrow> hit" where
  "properties_hit field v = [(''_source'', PDict [(''properties'', PDict [(field, v)])])]"

section \<open>sycamore.transforms.basics: Limit\<close>

text \<open>
  \<open>Limit.local_execute\<close> walks a list of documents.  The only thing it asks of a
  document is whether it is an instance of \<open>MetadataDocument\<close>, so a document is a
  payload under one of two constructors.
\<close>

datatype 'a document = Document 'a | MetadataDocument 'a

fun isinstance_MetadataDocument :: "'a document \<Rightarrow> bool" where
  "isinstance_MetadataDocument (MetadataDocument _) = True"
| "isinstance_MetadataDocument (Document _) = False"

text \<open>
  The loop of \<open>local_execute\<close>, with its two local variables \<open>filtered_docs\<close> and
  \<open>count\<close> passed along; \<open>break\<close> returns what has been collected so far.  The limit
  is a Python \<open>int\<close>.
\<close>

fun local_execute_loop ::
  "int \<Rightarrow> 'a document list \<Rightarrow> 'a document list \<Rightarrow> int \<Rightarrow> 'a document list" where
  "local_execute_loop limit [] filtered_docs count = filtered_docs"
| "local_execute_loop limit (doc # all_docs) filtered_docs count =
     (if \<not> isinstance_MetadataDocument doc then
        (let count' = count + 1 in
         if count' > limit then filtered_docs
         else local_execute_loop limit all_docs (filtered_docs @ [doc]) count')
      else local_execute_loop limit all_docs filtered_docs count)"

definition local_execute :: "int \<Rightarrow> 'a document list \<Rightarrow> 'a document list" where
  "local_execute limit all_docs = local_execute_loop limit all_docs [] 0"

section \<open>Evaluation\<close>

lemmas run_simps =
  lookup_sample_value_def nested_lookup_def properties_hit_def add_sample_value_def
  NUM_EXAMPLE_VALUES_def initial_locals_def str_int_def str_nat.simps digit_char_def Let_def
  repr_str_def escape_char_def printable_def

section \<open>Properties of \<open>to_schema\<close>\<close>

lemma to_schema_loop_map:
  "to_schema_loop items acc = acc @ map (\<lambda>(k, f). f\<lparr>name := k\<rparr>) items"
  by (induction items arbitrary: acc) auto

text \<open>
  Claim C9.  \<open>to_schema\<close> returns one entry per item of the dictionary, in the order of
  the items; the name of the entry is the key of the item, and its type, description
  and examples are those of the item's entry.
\<close>

theorem to_schema_rekeys:
  "length (schema_fields (to_schema s)) = length (os_fields s)
   \<and> (\<forall>i < length (os_fields s).
        name (schema_fields (to_schema s) ! i) = fst (os_fields s ! i)
      \<and> field_type (schema_fields (to_schema s) ! i) = field_type (snd (os_fields s ! i))
      \<and> description (schema_fields (to_schema s) ! i) = description (snd (os_fields s ! i))
      \<and> examples (schema_fields (to_schema s) ! i) = examples (snd (os_fields s ! i)))"
  by (simp add: to_schema_def to_schema_loop_map case_prod_beta)

theorem to_schema_rekeys_witness:
  "to_schema \<lparr>os_fields =
      [(''text_representation'', OpenSearchSchemaField ''<class 'str'>'' (Some ''all'') None),
       (''properties.age'', OpenSearchSchemaField ''<class 'int'>'' None (Some {''5''}))]\<rparr>
   = \<lparr>schema_fields =
      [\<lparr>name = ''text_representation'', field_type = ''<class 'str'>'',
        description = Some ''all'', examples = None\<rparr>,
       \<lparr>name = ''properties.age'', field_type = ''<class 'int'>'',
        description = None, examples = Some {''5''}\<rparr>]\<rparr>"
  using to_schema_rekeys [of "\<lparr>os_fields =
      [(''text_representation'', OpenSearchSchemaField ''<class 'str'>'' (Some ''all'') None),
       (''properties.age'', OpenSearchSchemaField ''<class 'int'>'' None (Some {''5''}))]\<rparr>"]
  by (simp add: to_schema_def OpenSearchSchemaField_def)

section \<open>Properties of Limit\<close>

lemma local_execute_loop_take:
  "0 \<le> count \<Longrightarrow>
   local_execute_loop limit docs acc count =
     acc @ take (nat (limit - count)) (filter (\<lambda>d. \<not> isinstance_MetadataDocument d) docs)"
proof (induction docs arbitrary: acc count)
  case Nil
  then show ?case by simp
next
  case (Cons d docs)
  show ?case
  proof (cases "isinstance_MetadataDocument d")
    case True
    with Cons show ?thesis by simp
  next
    case False
    show ?thesis
    proof (cases "count + 1 > limit")
      case True
      then have "nat (limit - count) = 0" by simp
      with False True show ?thesis by (simp add: Let_def)
    next
      case over: False
      then have "nat (limit - count) = Suc (nat (limit - (count + 1)))"
        using Cons.prems by simp
      moreover have "0 \<le> count + 1" using Cons.prems by simp
      ultimately show ?thesis
        using False over Cons.IH [of "count + 1" "acc @ [d]"] by (simp add: Let_def)
    qed
  qed
qed

lemma local_execute_take:
  "local_execute limit docs =
     take (nat limit) (filter (\<lambda>d. \<not> isinstance_MetadataDocument d) docs)"
  using local_execute_loop_take [of 0 limit docs "[]"] by (simp add: local_execute_def)

text \<open>
  Claim C10.  For every list of documents and every limit \<open>n\<close>, \<open>local_execute\<close>
  returns exactly the first \<open>n\<close> of the non-metadata documents of the input, in their
  original order (all of them when there are fewer, none when \<open>n\<close> is negative).  So
  metadata documents are neither counted against the limit nor returned: the result
  has at most \<open>n\<close> documents, it is a prefix of the non-metadata documents, and no
  metadata document is in it.
\<close>

theorem local_execute_limit:
  "local_execute n docs = take (nat n) (filter (\<lambda>d. \<not> isinstance_MetadataDocument d) docs)
   \<and> length (local_execute n docs) =
       min (nat n) (length (filter (\<lambda>d. \<not> isinstance_MetadataDocument d) docs))
   \<and> length (local_execute n docs) \<le> nat n
   \<and> prefix (local_execute n docs) (filter (\<lambda>d. \<not> isinstance_MetadataDocument d) docs)
   \<and> (\<forall>d \<in> set (local_execute n docs). \<not> isinstance_MetadataDocument d)"
proof -
  let ?keep = "filter (\<lambda>d. \<not> isinstance_MetadataDocument d) docs"
  have eq: "local_execute n docs = take (nat n) ?keep" by (rule local_execute_take)
  have "length (take (nat n) ?keep) = min (nat n) (length ?keep)" by (simp add: min.commute)
  moreover have "length (take (nat n) ?keep) \<le> nat n" by simp
  moreover have "prefix (take (nat n) ?keep) ?keep" by (rule take_is_prefix)
  moreover have "\<forall>d \<in> set (take (nat n) ?keep). \<not> isinstance_MetadataDocument d"
    by (auto dest: in_set_takeD)
  ultimately show ?thesis unfolding eq by blast
qed

theorem local_execute_limit_witness:
  "local_execute 2
     [MetadataDocument (0::nat), Document 1, Document 2, MetadataDocument 3, Document 4]
     = [Document 1, Document 2]
   \<and> length (local_execute 2
       [MetadataDocument (0::nat), Document 1, Document 2, MetadataDocument 3, Document 4]) = 2
   \<and> prefix [Document 1, Document 2]
       (filter (\<lambda>d. \<not> isinstance_MetadataDocument d)
          [MetadataDocument (0::nat), Document 1, Document 2, MetadataDocument 3, Document 4])"
proof -
  let ?docs = "[MetadataDocument (0::nat), Document 1, Document 2, MetadataDocument 3, Document 4]"
  have eq: "local_execute 2 ?docs = [Document 1, Document 2]"
    using local_execute_limit [of 2 ?docs, THEN conjunct1] by simp
  show ?thesis unfolding eq by simp
qed

section \<open>The sample loop\<close>

lemma lookup_sample_value_error: "lookup_sample_value lk key h = Inl e \<Longrightarrow> e = KeyError"
  by (auto simp: lookup_sample_value_def split: option.splits lookup.splits)

lemma sample_loop_full:
  "NUM_EXAMPLE_VALUES \<le> card (samples st) \<Longrightarrow> sample_loop lk key hs st = (Inr st, [])"
  by (cases hs) simp_all

lemma sample_loop_raise:
  "card (samples st) < NUM_EXAMPLE_VALUES \<Longrightarrow> lookup_sample_value lk key h = Inl e \<Longrightarrow>
   sample_loop lk key (h # hs) st = (Inl e, [])"
  by simp

lemma sample_loop_None:
  "card (samples st) < NUM_EXAMPLE_VALUES \<Longrightarrow> lookup_sample_value lk key h = Inr PNone \<Longrightarrow>
   sample_loop lk key (h # hs) st = sample_loop lk key hs st"
  by simp

lemma sample_loop_value:
  "card (samples st) < NUM_EXAMPLE_VALUES \<Longrightarrow> lookup_sample_value lk key h = Inr v \<Longrightarrow>
   v \<noteq> PNone \<Longrightarrow>
   sample_loop lk key (h # hs) st =
     (fst (sample_loop lk key hs (fst (add_sample_value key v st))),
      snd (add_sample_value key v st) @ snd (sample_loop lk key hs (fst (add_sample_value key v st))))"
  by (simp add: case_prod_beta)

lemma sample_loop_cases:
  obtains (full) "NUM_EXAMPLE_VALUES \<le> card (samples st)"
  | (raise) e where "card (samples st) < NUM_EXAMPLE_VALUES" "lookup_sample_value lk key h = Inl e"
  | (none) "card (samples st) < NUM_EXAMPLE_VALUES" "lookup_sample_value lk key h = Inr PNone"
  | (val) v where "card (samples st) < NUM_EXAMPLE_VALUES" "lookup_sample_value lk key h = Inr v" "v \<noteq> PNone"
  by (cases "lookup_sample_value lk key h") (metis not_le)+

lemma sample_loop_error: "fst (sample_loop lk key hs st) = Inl e \<Longrightarrow> e = KeyError"
proof (induction hs arbitrary: st)
  case Nil
  then show ?case by simp
next
  case (Cons h hs)
  show ?case
  proof (cases rule: sample_loop_cases [where st=st and lk=lk and key=key and h=h])
    case full
    with Cons.prems show ?thesis by (simp add: sample_loop_full)
  next
    case (raise e')
    with Cons.prems show ?thesis by (auto simp: sample_loop_raise dest: lookup_sample_value_error)
  next
    case none
    with Cons show ?thesis by (simp add: sample_loop_None del: sample_loop.simps)
  next
    case (val v)
    with Cons show ?thesis by (simp add: sample_loop_value del: sample_loop.simps)
  qed
qed

lemma add_sample_value_finite:
  "finite (samples st) \<Longrightarrow> finite (samples (fst (add_sample_value key v st)))"
  by (simp add: add_sample_value_def Let_def split: option.splits)

lemma add_sample_value_card:
  assumes "finite (samples st)"
  shows "card (samples (fst (add_sample_value key v st))) \<le> Suc (card (samples st))"
proof -
  have img: "card (insert x (f ` samples st)) \<le> Suc (card (samples st))" for x and f :: "string \<Rightarrow> string"
    using assms card_image_le [of "samples st" f] by (simp add: card_insert_if)
  have ins: "card (insert x (samples st)) \<le> Suc (card (samples st))" for x
    using assms by (simp add: card_insert_if)
  show ?thesis
    by (simp add: add_sample_value_def Let_def img ins split: option.splits)
qed

lemma add_sample_value_nonempty: "samples (fst (add_sample_value key v st)) \<noteq> {}"
  by (simp add: add_sample_value_def Let_def split: option.splits)

lemma sample_loop_cap:
  "finite (samples st) \<Longrightarrow> card (samples st) \<le> NUM_EXAMPLE_VALUES \<Longrightarrow>
   fst (sample_loop lk key hs st) = Inr st' \<Longrightarrow>
   finite (samples st') \<and> card (samples st') \<le> NUM_EXAMPLE_VALUES"
proof (induction hs arbitrary: st)
  case Nil
  then show ?case by simp
next
  case (Cons h hs)
  show ?case
  proof (cases rule: sample_loop_cases [where st=st and lk=lk and key=key and h=h])
    case full
    with Cons.prems show ?thesis by (simp add: sample_loop_full)
  next
    case (raise e')
    with Cons.prems show ?thesis by (simp add: sample_loop_raise)
  next
    case none
    with Cons show ?thesis by (simp add: sample_loop_None del: sample_loop.simps)
  next
    case (val v)
    let ?st = "fst (add_sample_value key v st)"
    have "finite (samples ?st)" using Cons.prems(1) by (rule add_sample_value_finite)
    moreover have "card (samples ?st) \<le> NUM_EXAMPLE_VALUES"
      using add_sample_value_card [OF Cons.prems(1), of key v] val(1) by simp
    moreover have "fst (sample_loop lk key hs ?st) = Inr st'"
      using Cons.prems(3) val by (simp add: sample_loop_value del: sample_loop.simps)
    ultimately show ?thesis by (rule Cons.IH)
  qed
qed

section \<open>The key loop and \<open>get_schema\<close>\<close>

lemma key_loop_skip:
  "\<not> eligible key \<Longrightarrow>
   \<exists>m. key_loop lk rs (key # keys) result =
        (fst (key_loop lk rs keys result), DEBUG m # snd (key_loop lk rs keys result))"
  by (auto simp: eligible_def case_prod_beta)

lemma key_loop_try:
  assumes el: "eligible key"
  shows "fst (key_loop lk rs (key # keys) result) =
     fst (key_loop lk rs keys
            (case sampled_field lk rs key of
               None \<Rightarrow> result
             | Some f \<Rightarrow> result\<lparr>os_fields := AList.update key f (os_fields result)\<rparr>))"
proof (cases "sample_loop lk key rs initial_locals")
  case (Pair r logged)
  show ?thesis
  proof (cases r)
    case (Inl e)
    with Pair have "e = KeyError" using sample_loop_error [of lk key rs initial_locals e] by simp
    with Pair Inl show ?thesis
      using el by (simp add: eligible_def sampled_field_def case_prod_beta)
  next
    case (Inr st)
    with Pair show ?thesis
      using el by (simp add: eligible_def sampled_field_def case_prod_beta Let_def)
  qed
qed

lemma key_loop_fields:
  "\<exists>res. fst (key_loop lk rs keys result) = Inr res
     \<and> map_of (os_fields res) =
         (\<lambda>k. if k \<in> set keys \<and> eligible k \<and> sampled_field lk rs k \<noteq> None
              then sampled_field lk rs k else map_of (os_fields result) k)"
proof (induction keys arbitrary: result)
  case Nil
  then show ?case by simp
next
  case (Cons key keys)
  show ?case
  proof (cases "eligible key")
    case False
    from key_loop_skip [OF False, of lk rs keys result]
    have "fst (key_loop lk rs (key # keys) result) = fst (key_loop lk rs keys result)"
      by auto
    with Cons.IH [of result] False show ?thesis by (auto simp: fun_eq_iff)
  next
    case True
    let ?result = "case sampled_field lk rs key of
               None \<Rightarrow> result
             | Some f \<Rightarrow> result\<lparr>os_fields := AList.update key f (os_fields result)\<rparr>"
    from Cons.IH [of ?result] obtain res where
      res: "fst (key_loop lk rs keys ?result) = Inr res"
      and m: "map_of (os_fields res) =
         (\<lambda>k. if k \<in> set keys \<and> eligible k \<and> sampled_field lk rs k \<noteq> None
              then sampled_field lk rs k else map_of (os_fields ?result) k)"
      by blast
    have "fst (key_loop lk rs (key # keys) result) = Inr res"
      using key_loop_try [OF True, of lk rs keys result] res by simp
    moreover have "map_of (os_fields res) =
         (\<lambda>k. if k \<in> set (key # keys) \<and> eligible k \<and> sampled_field lk rs k \<noteq> None
              then sampled_field lk rs k else map_of (os_fields result) k)"
      unfolding m using True
      by (auto simp: fun_eq_iff AList.update_conv' split: option.splits)
    ultimately show ?thesis by blast
  qed
qed

lemma update_hd: "al \<noteq> [] \<Longrightarrow> hd (AList.update k v al) = (if fst (hd al) = k then (k, v) else hd al)"
  by (cases al) auto

lemma key_loop_hd:
  "os_fields result \<noteq> [] \<Longrightarrow> \<not> eligible (fst (hd (os_fields result))) \<Longrightarrow>
   fst (key_loop lk rs keys result) = Inr res \<Longrightarrow>
   os_fields res \<noteq> [] \<and> hd (os_fields res) = hd (os_fields result)"
proof (induction keys arbitrary: result)
  case Nil
  then show ?case by simp
next
  case (Cons key keys)
  show ?case
  proof (cases "eligible key")
    case False
    from key_loop_skip [OF False, of lk rs keys result]
    have "fst (key_loop lk rs (key # keys) result) = fst (key_loop lk rs keys result)"
      by auto
    with Cons show ?thesis by simp
  next
    case True
    let ?result = "case sampled_field lk rs key of
               None \<Rightarrow> result
             | Some f \<Rightarrow> result\<lparr>os_fields := AList.update key f (os_fields result)\<rparr>"
    have ne: "fst (hd (os_fields result)) \<noteq> key" using True Cons.prems(2) by auto
    have 1: "os_fields ?result \<noteq> []" using Cons.prems(1) by (simp split: option.splits)
    have 2: "hd (os_fields ?result) = hd (os_fields result)"
      using Cons.prems(1) ne by (simp add: update_hd split: option.splits)
    have 3: "fst (key_loop lk rs keys ?result) = Inr res"
      using key_loop_try [OF True, of lk rs keys result] Cons.prems(3) by simp
    from Cons.IH [OF 1 _ 3] 2 Cons.prems(2) show ?thesis by simp
  qed
qed

lemma text_representation_not_eligible: "\<not> eligible ''text_representation''"
  by (simp add: eligible_def startswith_def)

lemma get_schema_empty: "get_schema lk index [] rs = (Inl StopIteration, [DEBUG (''Getting schema for index '' @ index)])"
  by (simp add: get_schema_def)

lemma get_schema_key_loop:
  "fst (get_schema lk index ((i, m) # rest) rs) =
     fst (key_loop lk rs (map fst (mappings m))
            \<lparr>os_fields = [(''text_representation'', text_representation_field)]\<rparr>)"
  by (simp add: get_schema_def text_representation_field_def case_prod_beta Let_def)

lemma get_schema_fields:
  "\<exists>res. fst (get_schema lk index ((i, m) # rest) rs) = Inr res
     \<and> map_of (os_fields res) =
         (\<lambda>k. if k \<in> fst ` set (mappings m) \<and> eligible k \<and> sampled_field lk rs k \<noteq> None
              then sampled_field lk rs k
              else if k = ''text_representation'' then Some text_representation_field else None)
     \<and> hd (os_fields res) = (''text_representation'', text_representation_field)"
proof -
  let ?init = "\<lparr>os_fields = [(''text_representation'', text_representation_field)]\<rparr>"
  from key_loop_fields [of lk rs "map fst (mappings m)" ?init] obtain res where
    res: "fst (key_loop lk rs (map fst (mappings m)) ?init) = Inr res"
    and m: "map_of (os_fields res) =
         (\<lambda>k. if k \<in> set (map fst (mappings m)) \<and> eligible k \<and> sampled_field lk rs k \<noteq> None
              then sampled_field lk rs k else map_of (os_fields ?init) k)"
    by blast
  have "hd (os_fields res) = (''text_representation'', text_representation_field)"
    using key_loop_hd [of ?init lk rs "map fst (mappings m)" res] res
    by (simp add: text_representation_not_eligible)
  moreover have "map_of (os_fields res) =
         (\<lambda>k. if k \<in> fst ` set (mappings m) \<and> eligible k \<and> sampled_field lk rs k \<noteq> None
              then sampled_field lk rs k
              else if k = ''text_representation'' then Some text_representation_field else None)"
    unfolding m by (auto simp: fun_eq_iff)
  ultimately show ?thesis using res unfolding get_schema_key_loop by blast
qed

text \<open>
  Claim C8.  Whatever the listing and the sample, a schema that \<open>get_schema\<close> returns
  holds \<open>text_representation\<close> with the entry built before the key loop: type
  \<open><class 'str'>\<close>, the fixed description and no examples.  The entry is the first of
  the dictionary, and no key of the listing overwrites it.  \<open>get_schema\<close> returns a
  schema whenever the field-mapping response names at least one index.
\<close>

theorem text_representation_present:
  "(fst (get_schema lk index schema random_sample) = Inr res \<longrightarrow>
      map_of (os_fields res) ''text_representation'' =
         Some \<lparr>name = ''default'', field_type = ''<class 'str'>'',
               description = Some ''Can be assumed to have all other details'',
               examples = None\<rparr>
      \<and> hd (os_fields res) =
         (''text_representation'',
          \<lparr>name = ''default'', field_type = ''<class 'str'>'',
           description = Some ''Can be assumed to have all other details'',
           examples = None\<rparr>))
   \<and> (schema \<noteq> [] \<longrightarrow> (\<exists>r. fst (get_schema lk index schema random_sample) = Inr r))"
proof (cases schema)
  case Nil
  then show ?thesis by (simp add: get_schema_empty)
next
  case (Cons p rest)
  obtain i m where p: "p = (i, m)" by (cases p)
  from get_schema_fields [of lk index i m rest random_sample] obtain r where
    r: "fst (get_schema lk index ((i, m) # rest) random_sample) = Inr r"
    and mp: "map_of (os_fields r) =
         (\<lambda>k. if k \<in> fst ` set (mappings m) \<and> eligible k \<and> sampled_field lk random_sample k \<noteq> None
              then sampled_field lk random_sample k
              else if k = ''text_representation'' then Some text_representation_field else None)"
    and h: "hd (os_fields r) = (''text_representation'', text_representation_field)"
    by blast
  have 1: "map_of (os_fields r) ''text_representation'' = Some text_representation_field"
    unfolding mp by (simp add: text_representation_not_eligible)
  from r 1 h show ?thesis unfolding Cons p
    by (auto simp: text_representation_field_def OpenSearchSchemaField_def)
qed

theorem text_representation_present_witness:
  "\<exists>res. fst (get_schema nested_lookup ''idx''
              [(''idx'', \<lparr>mappings = [(''properties.age'', PDict [])]\<rparr>)]
              [properties_hit ''age'' (PInt 5)]) = Inr res
     \<and> map_of (os_fields res) ''text_representation'' =
         Some \<lparr>name = ''default'', field_type = ''<class 'str'>'',
               description = Some ''Can be assumed to have all other details'',
               examples = None\<rparr>"
proof -
  let ?schema = "[(''idx'', \<lparr>mappings = [(''properties.age'', PDict [])]\<rparr>)]"
  let ?rs = "[properties_hit ''age'' (PInt 5)]"
  have ne: "?schema \<noteq> []" by simp
  from text_representation_present
    [where schema = ?schema and lk = nested_lookup and index = "''idx''"
       and random_sample = ?rs, THEN conjunct2, THEN mp, OF ne]
  obtain r where r: "fst (get_schema nested_lookup ''idx'' ?schema ?rs) = Inr r" ..
  from text_representation_present
    [where schema = ?schema and lk = nested_lookup and index = "''idx''"
       and random_sample = ?rs and res = r, THEN conjunct1, THEN mp, OF r]
  have "map_of (os_fields r) ''text_representation'' =
         Some \<lparr>name = ''default'', field_type = ''<class 'str'>'',
               description = Some ''Can be assumed to have all other details'',
               examples = None\<rparr>" ..
  with r show ?thesis by blast
qed

text \<open>
  A listing may hold the key \<open>text_representation\<close> itself.  It does not start with
  \<open>properties.\<close>, and it is a key of the output all the same.
\<close>

theorem rejected_key_counterexample:
  "\<not> startswith ''text_representation'' ''properties.''
   \<and> fst (get_schema nested_lookup ''idx''
            [(''idx'', \<lparr>mappings = [(''text_representation'', PDict [])]\<rparr>)] [])
       = Inr \<lparr>os_fields =
           [(''text_representation'',
             \<lparr>name = ''default'', field_type = ''<class 'str'>'',
              description = Some ''Can be assumed to have all other details'',
              examples = None\<rparr>)]\<rparr>"
  by (simp add: get_schema_def startswith_def endswith_def OpenSearchSchemaField_def)

text \<open>
  Claim C7, amended.  A key that ends with \<open>.keyword\<close> or does not start with
  \<open>properties.\<close> gets no entry from the key loop: it is a key of the output only if
  it is \<open>text_representation\<close>, and then its entry is the one built before the loop.
  \<open>get_schema\<close> returns normally; the keys of the output are \<open>text_representation\<close>
  and the keys of the listing that pass both guards and have a sample, each decided by
  the key alone; the rejection logs one debug record and goes on with the other keys.
\<close>

theorem rejected_keys_not_sampled:
  "endswith key ''.keyword'' \<or> \<not> startswith key ''properties.'' \<Longrightarrow>
   (\<exists>res. fst (get_schema lk index ((i, m) # rest) random_sample) = Inr res
      \<and> map_of (os_fields res) key =
          (if key = ''text_representation'' then Some text_representation_field else None)
      \<and> fst ` set (os_fields res) =
          insert ''text_representation''
            {k \<in> fst ` set (mappings m).
               \<not> endswith k ''.keyword'' \<and> startswith k ''properties.''
               \<and> sampled_field lk random_sample k \<noteq> None})
   \<and> (\<exists>msg. key_loop lk random_sample (key # keys) result =
         (fst (key_loop lk random_sample keys result),
          DEBUG msg # snd (key_loop lk random_sample keys result)))"
proof -
  assume rej: "endswith key ''.keyword'' \<or> \<not> startswith key ''properties.''"
  then have ne: "\<not> eligible key" by (auto simp: eligible_def)
  from get_schema_fields [of lk index i m rest random_sample] obtain res where
    res: "fst (get_schema lk index ((i, m) # rest) random_sample) = Inr res"
    and mp: "map_of (os_fields res) =
         (\<lambda>k. if k \<in> fst ` set (mappings m) \<and> eligible k \<and> sampled_field lk random_sample k \<noteq> None
              then sampled_field lk random_sample k
              else if k = ''text_representation'' then Some text_representation_field else None)"
    by blast
  have 1: "map_of (os_fields res) key =
          (if key = ''text_representation'' then Some text_representation_field else None)"
    unfolding mp using ne by simp
  have "dom (map_of (os_fields res)) =
          insert ''text_representation''
            {k \<in> fst ` set (mappings m). eligible k \<and> sampled_field lk random_sample k \<noteq> None}"
    unfolding mp by (auto simp: dom_def split: if_splits)
  then have 2: "fst ` set (os_fields res) =
          insert ''text_representation''
            {k \<in> fst ` set (mappings m).
               \<not> endswith k ''.keyword'' \<and> startswith k ''properties.''
               \<and> sampled_field lk random_sample k \<noteq> None}"
    by (simp add: dom_map_of_conv_image_fst eligible_def conj_assoc)
  from res 1 2 key_loop_skip [OF ne, of lk random_sample keys result] show ?thesis by blast
qed

theorem rejected_keys_not_sampled_witness:
  "endswith ''properties.name.keyword'' ''.keyword''
   \<and> (\<exists>res. fst (get_schema nested_lookup ''idx''
              [(''idx'', \<lparr>mappings = [(''properties.name'', PDict []),
                                       (''properties.name.keyword'', PDict [])]\<rparr>)]
              [[(''_source'', PDict [(''properties'', PDict [(''name'', PStr ''x'')])])]]) = Inr res
         \<and> map_of (os_fields res) ''properties.name.keyword'' = None)"
proof -
  let ?g = "fst (get_schema nested_lookup ''idx''
              [(''idx'', \<lparr>mappings = [(''properties.name'', PDict []),
                                       (''properties.name.keyword'', PDict [])]\<rparr>)]
              [[(''_source'', PDict [(''properties'', PDict [(''name'', PStr ''x'')])])]])"
  have e: "endswith ''properties.name.keyword'' ''.keyword''"
    by (simp add: endswith_def)
  have "\<exists>res. ?g = Inr res
      \<and> map_of (os_fields res) ''properties.name.keyword'' =
          (if ''properties.name.keyword'' = ''text_representation''
           then Some text_representation_field else None)"
    using rejected_keys_not_sampled
      [OF disjI1 [OF e], of nested_lookup "''idx''" "''idx''"
        "\<lparr>mappings = [(''properties.name'', PDict []), (''properties.name.keyword'', PDict [])]\<rparr>"
        "[]" "[[(''_source'', PDict [(''properties'', PDict [(''name'', PStr ''x'')])])]]"
        "[]" "\<lparr>os_fields = []\<rparr>"]
    by (elim conjE exE, intro exI conjI) assumption+
  then have "\<exists>res. ?g = Inr res \<and> map_of (os_fields res) ''properties.name.keyword'' = None"
    by simp
  with e show ?thesis by (rule conjI)
qed

section \<open>The cap on the examples\<close>

lemma sample_loop_append:
  "fst (sample_loop lk key xs st) = Inr st1 \<Longrightarrow>
   sample_loop lk key (xs @ ys) st =
     (fst (sample_loop lk key ys st1),
      snd (sample_loop lk key xs st) @ snd (sample_loop lk key ys st1))"
proof (induction xs arbitrary: st)
  case Nil
  then show ?case by simp
next
  case (Cons h xs)
  show ?case
  proof (cases rule: sample_loop_cases [where st=st and lk=lk and key=key and h=h])
    case full
    then have "st1 = st" using Cons.prems by (simp add: sample_loop_full)
    with full show ?thesis by (simp add: sample_loop_full del: sample_loop.simps)
  next
    case (raise e')
    with Cons.prems show ?thesis by (simp add: sample_loop_raise)
  next
    case none
    with Cons show ?thesis by (simp add: sample_loop_None del: sample_loop.simps)
  next
    case (val v)
    with Cons show ?thesis by (simp add: sample_loop_value del: sample_loop.simps)
  qed
qed

lemma sample_loop_stops:
  assumes "fst (sample_loop lk key xs st) = Inr st1" "NUM_EXAMPLE_VALUES \<le> card (samples st1)"
  shows "sample_loop lk key (xs @ ys) st = sample_loop lk key xs st"
  using sample_loop_append [OF assms(1), of ys] assms
  by (simp add: sample_loop_full prod_eq_iff)

lemma update_set: "set (AList.update k v al) \<subseteq> insert (k, v) (set al)"
  by (induction al) auto

lemma key_loop_entries:
  "fst (key_loop lk rs keys result) = Inr res \<Longrightarrow> (k, f) \<in> set (os_fields res) \<Longrightarrow>
   (k, f) \<in> set (os_fields result) \<or> sampled_field lk rs k = Some f"
proof (induction keys arbitrary: result)
  case Nil
  then show ?case by simp
next
  case (Cons key keys)
  show ?case
  proof (cases "eligible key")
    case False
    from key_loop_skip [OF False, of lk rs keys result]
    have "fst (key_loop lk rs (key # keys) result) = fst (key_loop lk rs keys result)"
      by auto
    with Cons show ?thesis by simp
  next
    case True
    let ?result = "case sampled_field lk rs key of
               None \<Rightarrow> result
             | Some f \<Rightarrow> result\<lparr>os_fields := AList.update key f (os_fields result)\<rparr>"
    have "fst (key_loop lk rs keys ?result) = Inr res"
      using key_loop_try [OF True, of lk rs keys result] Cons.prems(1) by simp
    from Cons.IH [OF this Cons.prems(2)]
    show ?thesis
    proof
      assume "(k, f) \<in> set (os_fields ?result)"
      then show ?thesis using update_set [of key _ "os_fields result"]
        by (auto split: option.splits)
    qed simp
  qed
qed

lemma sampled_field_examples:
  assumes "sampled_field lk rs key = Some f"
  shows "\<exists>S. examples f = Some S \<and> finite S \<and> S \<noteq> {} \<and> card S \<le> NUM_EXAMPLE_VALUES"
proof -
  from assms obtain st where st: "fst (sample_loop lk key rs initial_locals) = Inr st"
    and pos: "card (samples st) > 0"
    and f: "f = OpenSearchSchemaField (str_opt_type (sample_type st)) None (Some (samples st))"
    by (auto simp: sampled_field_def split: sum.splits if_splits)
  have "finite (samples st) \<and> card (samples st) \<le> NUM_EXAMPLE_VALUES"
    by (rule sample_loop_cap [OF _ _ st]) (simp_all add: initial_locals_def)
  with pos f show ?thesis by (auto simp: OpenSearchSchemaField_def)
qed

lemma get_schema_entries:
  assumes "fst (get_schema lk index schema rs) = Inr res" "(k, f) \<in> set (os_fields res)"
  shows "(k, f) = (''text_representation'', text_representation_field) \<or> sampled_field lk rs k = Some f"
proof (cases schema)
  case Nil
  with assms show ?thesis by (simp add: get_schema_empty)
next
  case (Cons p rest)
  obtain i m where "p = (i, m)" by (cases p)
  with Cons assms(1) have "fst (key_loop lk rs (map fst (mappings m))
            \<lparr>os_fields = [(''text_representation'', text_representation_field)]\<rparr>) = Inr res"
    by (simp only: get_schema_key_loop)
  from key_loop_entries [OF this assms(2)] show ?thesis by simp
qed

text \<open>
  Claim C2.  Every entry of the schema that \<open>get_schema\<close> returns has at most 5
  examples.  Once the loop over a prefix of the sample has ended with 5 samples, what
  follows the prefix is not examined: the outcome of the loop, and so the entry of the
  field, is that of the prefix, whatever the later hits are.
\<close>

theorem examples_capped:
  "(fst (get_schema lk index schema random_sample) = Inr res \<longrightarrow>
      (\<forall>(k, f) \<in> set (os_fields res). \<forall>S. examples f = Some S \<longrightarrow> finite S \<and> card S \<le> 5))
   \<and> (fst (sample_loop lk key xs initial_locals) = Inr st \<longrightarrow> card (samples st) = 5 \<longrightarrow>
        sample_loop lk key (xs @ ys) initial_locals = sample_loop lk key xs initial_locals
        \<and> sampled_field lk (xs @ ys) key = sampled_field lk xs key)"
proof (intro conjI impI)
  assume g: "fst (get_schema lk index schema random_sample) = Inr res"
  show "\<forall>(k, f) \<in> set (os_fields res). \<forall>S. examples f = Some S \<longrightarrow> finite S \<and> card S \<le> 5"
  proof (intro ballI, clarify)
    fix k f S
    assume in_res: "(k, f) \<in> set (os_fields res)" and ex: "examples f = Some S"
    from get_schema_entries [OF g in_res] show "finite S \<and> card S \<le> 5"
    proof
      assume "(k, f) = (''text_representation'', text_representation_field)"
      with ex show ?thesis
        by (simp add: text_representation_field_def OpenSearchSchemaField_def)
    next
      assume "sampled_field lk random_sample k = Some f"
      from sampled_field_examples [OF this] ex show ?thesis
        by (auto simp: NUM_EXAMPLE_VALUES_def)
    qed
  qed
next
  assume st: "fst (sample_loop lk key xs initial_locals) = Inr st" and c: "card (samples st) = 5"
  then have eq: "sample_loop lk key (xs @ ys) initial_locals = sample_loop lk key xs initial_locals"
    by (intro sample_loop_stops [OF st]) (simp add: NUM_EXAMPLE_VALUES_def)
  then show "sample_loop lk key (xs @ ys) initial_locals = sample_loop lk key xs initial_locals" .
  from eq show "sampled_field lk (xs @ ys) key = sampled_field lk xs key"
    by (simp add: sampled_field_def)
qed

theorem examples_capped_witness:
  "fst (sample_loop nested_lookup ''properties.n''
          [properties_hit ''n'' (PInt 1), properties_hit ''n'' (PInt 2),
           properties_hit ''n'' (PInt 3), properties_hit ''n'' (PInt 4),
           properties_hit ''n'' (PInt 5)] initial_locals)
     = Inr \<lparr>samples = {''1'', ''2'', ''3'', ''4'', ''5''}, sample_type = Some T_int,
            warnings = Map.empty\<rparr>
   \<and> sample_loop nested_lookup ''properties.n''
        ([properties_hit ''n'' (PInt 1), properties_hit ''n'' (PInt 2),
          properties_hit ''n'' (PInt 3), properties_hit ''n'' (PInt 4),
          properties_hit ''n'' (PInt 5)] @ [properties_hit ''n'' (PInt 6), []]) initial_locals
     = sample_loop nested_lookup ''properties.n''
        [properties_hit ''n'' (PInt 1), properties_hit ''n'' (PInt 2),
         properties_hit ''n'' (PInt 3), properties_hit ''n'' (PInt 4),
         properties_hit ''n'' (PInt 5)] initial_locals"
proof -
  let ?xs = "[properties_hit ''n'' (PInt 1), properties_hit ''n'' (PInt 2),
           properties_hit ''n'' (PInt 3), properties_hit ''n'' (PInt 4),
           properties_hit ''n'' (PInt 5)]"
  let ?st = "\<lparr>samples = {''1'', ''2'', ''3'', ''4'', ''5''}, sample_type = Some T_int,
            warnings = Map.empty\<rparr>"
  have a: "fst (sample_loop nested_lookup ''properties.n'' ?xs initial_locals) = Inr ?st"
    by (simp add: run_simps insert_commute)
  have b: "card (samples ?st) = 5" by simp
  from examples_capped [THEN conjunct2, rule_format, OF a b] a show ?thesis by blast
qed

section \<open>The reconciliation of types\<close>

lemma add_sample_value_list:
  "sample_type st = Some T_list \<Longrightarrow> sample_type (fst (add_sample_value key v st)) = Some T_list"
  by (simp add: add_sample_value_def Let_def)

lemma add_sample_value_str:
  "sample_type st = Some T_str \<Longrightarrow>
   sample_type (fst (add_sample_value key v st)) =
     (if type_of v = T_list then Some T_list else Some T_str)"
  by (simp add: add_sample_value_def Let_def)

lemma sample_loop_list:
  "sample_type st = Some T_list \<Longrightarrow> fst (sample_loop lk key hs st) = Inr st' \<Longrightarrow>
   sample_type st' = Some T_list"
proof (induction hs arbitrary: st)
  case Nil
  then show ?case by simp
next
  case (Cons h hs)
  show ?case
  proof (cases rule: sample_loop_cases [where st=st and lk=lk and key=key and h=h])
    case full
    with Cons.prems show ?thesis by (simp add: sample_loop_full)
  next
    case (raise e')
    with Cons.prems show ?thesis by (simp add: sample_loop_raise)
  next
    case none
    with Cons show ?thesis by (simp add: sample_loop_None del: sample_loop.simps)
  next
    case (val v)
    from val Cons.prems(2)
    have "fst (sample_loop lk key hs (fst (add_sample_value key v st))) = Inr st'"
      by (simp add: sample_loop_value del: sample_loop.simps)
    with add_sample_value_list [OF Cons.prems(1), of key v] show ?thesis
      by (rule Cons.IH)
  qed
qed

lemma sample_loop_str:
  "sample_type st = Some T_str \<Longrightarrow> fst (sample_loop lk key hs st) = Inr st' \<Longrightarrow>
   (sample_type st' = Some T_str \<or> sample_type st' = Some T_list)
   \<and> ((\<forall>h \<in> set hs. \<forall>v. lookup_sample_value lk key h = Inr v \<longrightarrow> type_of v \<noteq> T_list)
        \<longrightarrow> sample_type st' = Some T_str)"
proof (induction hs arbitrary: st)
  case Nil
  then show ?case by simp
next
  case (Cons h hs)
  show ?case
  proof (cases rule: sample_loop_cases [where st=st and lk=lk and key=key and h=h])
    case full
    with Cons.prems show ?thesis by (simp add: sample_loop_full)
  next
    case (raise e')
    with Cons.prems show ?thesis by (simp add: sample_loop_raise)
  next
    case none
    with Cons.prems(2) have "fst (sample_loop lk key hs st) = Inr st'"
      by (simp add: sample_loop_None del: sample_loop.simps)
    from Cons.IH [OF Cons.prems(1) this] show ?thesis by simp
  next
    case (val v)
    let ?st = "fst (add_sample_value key v st)"
    from val Cons.prems(2)
    have run: "fst (sample_loop lk key hs ?st) = Inr st'"
      by (simp add: sample_loop_value del: sample_loop.simps)
    show ?thesis
    proof (cases "type_of v = T_list")
      case True
      then have "sample_type ?st = Some T_list"
        using add_sample_value_str [OF Cons.prems(1), of key v] by simp
      from sample_loop_list [OF this run] True val(2) show ?thesis by auto
    next
      case False
      then have "sample_type ?st = Some T_str"
        using add_sample_value_str [OF Cons.prems(1), of key v] by simp
      from Cons.IH [OF this run] show ?thesis by simp
    qed
  qed
qed

text \<open>
  Claim C1, amended.  Let the loop over a prefix of the sample end with the type
  \<open>list\<close>: then the type is \<open>list\<close> at the end of the loop over the whole sample.
  Let it end with the type \<open>str\<close>: then the type at the end is \<open>str\<close> or \<open>list\<close>,
  and it is \<open>str\<close> when no later value is a list.
\<close>

theorem type_never_narrows:
  "fst (sample_loop lk key xs initial_locals) = Inr st \<Longrightarrow>
   fst (sample_loop lk key (xs @ ys) initial_locals) = Inr st' \<Longrightarrow>
   (sample_type st = Some T_list \<longrightarrow> sample_type st' = Some T_list)
   \<and> (sample_type st = Some T_str \<longrightarrow>
        (sample_type st' = Some T_str \<or> sample_type st' = Some T_list)
        \<and> ((\<forall>h \<in> set ys. \<forall>v. lookup_sample_value lk key h = Inr v \<longrightarrow> type_of v \<noteq> T_list)
             \<longrightarrow> sample_type st' = Some T_str))"
proof -
  assume a: "fst (sample_loop lk key xs initial_locals) = Inr st"
    and b: "fst (sample_loop lk key (xs @ ys) initial_locals) = Inr st'"
  from sample_loop_append [OF a, of ys] b have run: "fst (sample_loop lk key ys st) = Inr st'"
    by simp
  show ?thesis
    using sample_loop_list [OF _ run] sample_loop_str [OF _ run] by blast
qed

text \<open>
  The type \<open>str\<close> is not final.  After the values \<open>1\<close> and \<open>"foo"\<close> the type of
  the field is \<open>str\<close>; a third value \<open>[2]\<close> makes it \<open>list\<close>.
\<close>

theorem string_then_list_counterexample:
  "fst (get_schema nested_lookup ''idx''
          [(''idx'', \<lparr>mappings = [(''properties.x'', PDict [])]\<rparr>)]
          [properties_hit ''x'' (PInt 1), properties_hit ''x'' (PStr ''foo'')])
     = Inr \<lparr>os_fields =
         [(''text_representation'',
           \<lparr>name = ''default'', field_type = ''<class 'str'>'',
            description = Some ''Can be assumed to have all other details'',
            examples = None\<rparr>),
          (''properties.x'',
           \<lparr>name = ''default'', field_type = ''<class 'str'>'', description = None,
            examples = Some {''1'', ''foo''}\<rparr>)]\<rparr>
   \<and> fst (get_schema nested_lookup ''idx''
          [(''idx'', \<lparr>mappings = [(''properties.x'', PDict [])]\<rparr>)]
          [properties_hit ''x'' (PInt 1), properties_hit ''x'' (PStr ''foo''),
           properties_hit ''x'' (PList [PInt 2])])
     = Inr \<lparr>os_fields =
         [(''text_representation'',
           \<lparr>name = ''default'', field_type = ''<class 'str'>'',
            description = Some ''Can be assumed to have all other details'',
            examples = None\<rparr>),
          (''properties.x'',
           \<lparr>name = ''default'', field_type = ''<class 'list'>'', description = None,
            examples = Some {''['1']'', ''['foo']'', ''[2]''}\<rparr>)]\<rparr>"
  by (simp add: get_schema_def startswith_def endswith_def OpenSearchSchemaField_def
      run_simps insert_commute)

theorem type_never_narrows_witness:
  "\<exists>st st'.
     fst (sample_loop nested_lookup ''properties.x''
            [properties_hit ''x'' (PInt 1), properties_hit ''x'' (PStr ''foo'')]
            initial_locals) = Inr st
   \<and> fst (sample_loop nested_lookup ''properties.x''
            ([properties_hit ''x'' (PInt 1), properties_hit ''x'' (PStr ''foo'')]
             @ [properties_hit ''x'' (PInt 2)])
            initial_locals) = Inr st'
   \<and> sample_type st = Some T_str \<and> sample_type st' = Some T_str"
proof -
  let ?xs = "[properties_hit ''x'' (PInt 1), properties_hit ''x'' (PStr ''foo'')]"
  let ?ys = "[properties_hit ''x'' (PInt 2)]"
  let ?st = "\<lparr>samples = {''1'', ''foo''}, sample_type = Some T_str,
             warnings = [''properties.x'' \<mapsto> True]\<rparr>"
  let ?st' = "\<lparr>samples = {''1'', ''2'', ''foo''}, sample_type = Some T_str,
             warnings = [''properties.x'' \<mapsto> True]\<rparr>"
  have a: "fst (sample_loop nested_lookup ''properties.x'' ?xs initial_locals) = Inr ?st"
    by (simp add: run_simps insert_commute)
  have b: "fst (sample_loop nested_lookup ''properties.x'' (?xs @ ?ys) initial_locals) = Inr ?st'"
    by (simp add: run_simps insert_commute)
  have c: "\<forall>h \<in> set ?ys. \<forall>v. lookup_sample_value nested_lookup ''properties.x'' h = Inr v
             \<longrightarrow> type_of v \<noteq> T_list"
    by (auto simp: run_simps)
  have d: "sample_type ?st = Some T_str" by simp
  have e: "sample_type ?st' = Some T_str"
    using type_never_narrows [OF a b] c d by blast
  show ?thesis
    by (rule exI [of _ ?st], rule exI [of _ ?st'], intro conjI a b d e)
qed

lemma eligible_properties_age: "eligible ''properties.age''"
  by (simp add: eligible_def startswith_def endswith_def)

lemma get_schema_entry:
  assumes "key \<in> fst ` set (mappings m)" "eligible key"
  shows "\<exists>res. fst (get_schema lk index ((i, m) # rest) rs) = Inr res
     \<and> map_of (os_fields res) key = sampled_field lk rs key"
proof -
  from get_schema_fields [of lk index i m rest rs] obtain res where
    res: "fst (get_schema lk index ((i, m) # rest) rs) = Inr res"
    and mp: "map_of (os_fields res) =
         (\<lambda>k. if k \<in> fst ` set (mappings m) \<and> eligible k \<and> sampled_field lk rs k \<noteq> None
              then sampled_field lk rs k
              else if k = ''text_representation'' then Some text_representation_field else None)"
    by blast
  have "key \<noteq> ''text_representation''"
    using assms(2) text_representation_not_eligible by auto
  then have "map_of (os_fields res) key = sampled_field lk rs key"
    unfolding mp using assms by auto
  with res show ?thesis by blast
qed

text \<open>
  Claim C6.  When the type seen so far is \<open>int\<close> and the value is a float, the type
  becomes \<open>float\<close> and the samples collected so far are kept as they are; when the
  type is \<open>float\<close> and the value is an integer, the type stays.  In both cases the
  string of the value joins the samples and nothing is logged.  For a sample whose
  lookups of \<open>properties.age\<close> give 5, 7.5 and 3, and a listing with that key, the
  field has type \<open>float\<close> and the examples 5, 7.5 and 3.
\<close>

theorem int_float_upgrade:
  "(sample_type st = Some T_int \<longrightarrow> type_of v = T_float \<longrightarrow>
      add_sample_value key v st =
        (st\<lparr>sample_type := Some T_float, samples := insert (str v) (samples st)\<rparr>, []))
   \<and> (sample_type st = Some T_float \<longrightarrow> type_of w = T_int \<longrightarrow>
      add_sample_value key w st = (st\<lparr>samples := insert (str w) (samples st)\<rparr>, []))
   \<and> (lookup_sample_value lk ''properties.age'' h1 = Inr (PInt 5) \<longrightarrow>
      lookup_sample_value lk ''properties.age'' h2 = Inr (PFloat ''7.5'') \<longrightarrow>
      lookup_sample_value lk ''properties.age'' h3 = Inr (PInt 3) \<longrightarrow>
      ''properties.age'' \<in> fst ` set (mappings m) \<longrightarrow>
      (\<exists>res. fst (get_schema lk index ((i, m) # rest) [h1, h2, h3]) = Inr res
         \<and> map_of (os_fields res) ''properties.age'' =
             Some \<lparr>name = ''default'', field_type = ''<class 'float'>'', description = None,
                   examples = Some {''5'', ''7.5'', ''3''}\<rparr>))"
proof (intro conjI impI)
  assume "sample_type st = Some T_int" "type_of v = T_float"
  then show "add_sample_value key v st =
        (st\<lparr>sample_type := Some T_float, samples := insert (str v) (samples st)\<rparr>, [])"
    by (simp add: add_sample_value_def)
next
  assume "sample_type st = Some T_float" "type_of w = T_int"
  then show "add_sample_value key w st = (st\<lparr>samples := insert (str w) (samples st)\<rparr>, [])"
    by (simp add: add_sample_value_def)
next
  assume h: "lookup_sample_value lk ''properties.age'' h1 = Inr (PInt 5)"
    "lookup_sample_value lk ''properties.age'' h2 = Inr (PFloat ''7.5'')"
    "lookup_sample_value lk ''properties.age'' h3 = Inr (PInt 3)"
    and listed: "''properties.age'' \<in> fst ` set (mappings m)"
  have "sampled_field lk [h1, h2, h3] ''properties.age'' =
      Some \<lparr>name = ''default'', field_type = ''<class 'float'>'', description = None,
            examples = Some {''5'', ''7.5'', ''3''}\<rparr>"
    using h
    by (simp add: sampled_field_def OpenSearchSchemaField_def add_sample_value_def
        NUM_EXAMPLE_VALUES_def initial_locals_def str_int_def str_nat.simps digit_char_def
        Let_def insert_commute)
  with get_schema_entry [OF listed eligible_properties_age, of lk index i rest "[h1, h2, h3]"]
  show "\<exists>res. fst (get_schema lk index ((i, m) # rest) [h1, h2, h3]) = Inr res
         \<and> map_of (os_fields res) ''properties.age'' =
             Some \<lparr>name = ''default'', field_type = ''<class 'float'>'', description = None,
                   examples = Some {''5'', ''7.5'', ''3''}\<rparr>"
    by simp
qed

theorem int_float_upgrade_witness:
  "add_sample_value ''properties.age'' (PFloat ''7.5'')
      \<lparr>samples = {''5''}, sample_type = Some T_int, warnings = Map.empty\<rparr>
     = (\<lparr>samples = {''7.5'', ''5''}, sample_type = Some T_float, warnings = Map.empty\<rparr>, [])
   \<and> add_sample_value ''properties.age'' (PInt 3)
      \<lparr>samples = {''7.5'', ''5''}, sample_type = Some T_float, warnings = Map.empty\<rparr>
     = (\<lparr>samples = {''3'', ''7.5'', ''5''}, sample_type = Some T_float,
         warnings = Map.empty\<rparr>, [])
   \<and> (\<exists>res. fst (get_schema nested_lookup ''idx''
                    [(''idx'', \<lparr>mappings = [(''properties.age'', PDict [])]\<rparr>)]
                    [properties_hit ''age'' (PInt 5), properties_hit ''age'' (PFloat ''7.5''),
                     properties_hit ''age'' (PInt 3)]) = Inr res
         \<and> map_of (os_fields res) ''properties.age'' =
             Some \<lparr>name = ''default'', field_type = ''<class 'float'>'', description = None,
                   examples = Some {''5'', ''7.5'', ''3''}\<rparr>)"
proof (intro conjI)
  show "add_sample_value ''properties.age'' (PFloat ''7.5'')
      \<lparr>samples = {''5''}, sample_type = Some T_int, warnings = Map.empty\<rparr>
     = (\<lparr>samples = {''7.5'', ''5''}, sample_type = Some T_float, warnings = Map.empty\<rparr>, [])"
    using int_float_upgrade
      [of "\<lparr>samples = {''5''}, sample_type = Some T_int, warnings = Map.empty\<rparr>"
          "PFloat ''7.5''" "''properties.age''", THEN conjunct1]
    by simp
  show "add_sample_value ''properties.age'' (PInt 3)
      \<lparr>samples = {''7.5'', ''5''}, sample_type = Some T_float, warnings = Map.empty\<rparr>
     = (\<lparr>samples = {''3'', ''7.5'', ''5''}, sample_type = Some T_float,
         warnings = Map.empty\<rparr>, [])"
    using int_float_upgrade
      [of "\<lparr>samples = {''7.5'', ''5''}, sample_type = Some T_float, warnings = Map.empty\<rparr>"
          _ "''properties.age''" "PInt 3", THEN conjunct2, THEN conjunct1]
    by (simp add: str_int_def str_nat.simps digit_char_def)
  show "\<exists>res. fst (get_schema nested_lookup ''idx''
                    [(''idx'', \<lparr>mappings = [(''properties.age'', PDict [])]\<rparr>)]
                    [properties_hit ''age'' (PInt 5), properties_hit ''age'' (PFloat ''7.5''),
                     properties_hit ''age'' (PInt 3)]) = Inr res
         \<and> map_of (os_fields res) ''properties.age'' =
             Some \<lparr>name = ''default'', field_type = ''<class 'float'>'', description = None,
                   examples = Some {''5'', ''7.5'', ''3''}\<rparr>"
    using int_float_upgrade
      [of _ _ _ _ nested_lookup "properties_hit ''age'' (PInt 5)"
          "properties_hit ''age'' (PFloat ''7.5'')" "properties_hit ''age'' (PInt 3)"
          "\<lparr>mappings = [(''properties.age'', PDict [])]\<rparr>" "''idx''" "''idx''" "[]",
       THEN conjunct2, THEN conjunct2]
    by (simp add: lookup_sample_value_def nested_lookup_def properties_hit_def)
qed

lemma eligible_properties_tag: "eligible ''properties.tag''"
  by (simp add: eligible_def startswith_def endswith_def)

text \<open>
  Claim C3.  When the type seen so far is not \<open>list\<close> and the value is a list, the
  type becomes \<open>list\<close> and every sample collected so far is replaced by the string of
  the list that holds just that sample.  When the type is \<open>list\<close> and the value is not
  a list, the string of the list that holds just the value joins the samples.  For a
  sample whose lookups of \<open>properties.tag\<close> give \<open>"a"\<close> and \<open>["b", "c"]\<close>, and a
  listing with that key, the field has type \<open>list\<close> and the examples \<open>['a']\<close> and
  \<open>['b', 'c']\<close>.
\<close>

theorem list_promotion:
  "(sample_type st = Some cur \<longrightarrow> cur \<noteq> T_list \<longrightarrow> type_of v = T_list \<longrightarrow>
      add_sample_value key v st =
        (st\<lparr>sample_type := Some T_list,
            samples := insert (str v) ((\<lambda>x. ''['' @ repr_str x @ '']'') ` samples st)\<rparr>, []))
   \<and> (sample_type st = Some T_list \<longrightarrow> type_of w \<noteq> T_list \<longrightarrow>
      add_sample_value key w st =
        (st\<lparr>samples := insert (''['' @ repr w @ '']'') (samples st)\<rparr>, []))
   \<and> (lookup_sample_value lk ''properties.tag'' h1 = Inr (PStr ''a'') \<longrightarrow>
      lookup_sample_value lk ''properties.tag'' h2 = Inr (PList [PStr ''b'', PStr ''c'']) \<longrightarrow>
      ''properties.tag'' \<in> fst ` set (mappings m) \<longrightarrow>
      (\<exists>res. fst (get_schema lk index ((i, m) # rest) [h1, h2]) = Inr res
         \<and> map_of (os_fields res) ''properties.tag'' =
             Some \<lparr>name = ''default'', field_type = ''<class 'list'>'', description = None,
                   examples = Some {''['a']'', ''['b', 'c']''}\<rparr>))"
proof (intro conjI impI)
  assume "sample_type st = Some cur" "cur \<noteq> T_list" "type_of v = T_list"
  then show "add_sample_value key v st =
        (st\<lparr>sample_type := Some T_list,
            samples := insert (str v) ((\<lambda>x. ''['' @ repr_str x @ '']'') ` samples st)\<rparr>, [])"
    by (simp add: add_sample_value_def)
next
  assume "sample_type st = Some T_list" "type_of w \<noteq> T_list"
  then show "add_sample_value key w st =
        (st\<lparr>samples := insert (''['' @ repr w @ '']'') (samples st)\<rparr>, [])"
    by (simp add: add_sample_value_def)
next
  assume h: "lookup_sample_value lk ''properties.tag'' h1 = Inr (PStr ''a'')"
    "lookup_sample_value lk ''properties.tag'' h2 = Inr (PList [PStr ''b'', PStr ''c''])"
    and listed: "''properties.tag'' \<in> fst ` set (mappings m)"
  have "sampled_field lk [h1, h2] ''properties.tag'' =
      Some \<lparr>name = ''default'', field_type = ''<class 'list'>'', description = None,
            examples = Some {''['a']'', ''['b', 'c']''}\<rparr>"
    using h
    by (simp add: sampled_field_def OpenSearchSchemaField_def add_sample_value_def
        NUM_EXAMPLE_VALUES_def initial_locals_def Let_def repr_str_def escape_char_def
        printable_def insert_commute)
  with get_schema_entry [OF listed eligible_properties_tag, of lk index i rest "[h1, h2]"]
  show "\<exists>res. fst (get_schema lk index ((i, m) # rest) [h1, h2]) = Inr res
         \<and> map_of (os_fields res) ''properties.tag'' =
             Some \<lparr>name = ''default'', field_type = ''<class 'list'>'', description = None,
                   examples = Some {''['a']'', ''['b', 'c']''}\<rparr>"
    by simp
qed

theorem list_promotion_witness:
  "add_sample_value ''properties.tag'' (PList [PStr ''b'', PStr ''c''])
      \<lparr>samples = {''a''}, sample_type = Some T_str, warnings = Map.empty\<rparr>
     = (\<lparr>samples = {''['b', 'c']'', ''['a']''}, sample_type = Some T_list,
         warnings = Map.empty\<rparr>, [])
   \<and> add_sample_value ''properties.tag'' (PStr ''d'')
      \<lparr>samples = {''['a']''}, sample_type = Some T_list, warnings = Map.empty\<rparr>
     = (\<lparr>samples = {''['d']'', ''['a']''}, sample_type = Some T_list,
         warnings = Map.empty\<rparr>, [])
   \<and> (\<exists>res. fst (get_schema nested_lookup ''idx''
                    [(''idx'', \<lparr>mappings = [(''properties.tag'', PDict [])]\<rparr>)]
                    [properties_hit ''tag'' (PStr ''a''),
                     properties_hit ''tag'' (PList [PStr ''b'', PStr ''c''])]) = Inr res
         \<and> map_of (os_fields res) ''properties.tag'' =
             Some \<lparr>name = ''default'', field_type = ''<class 'list'>'', description = None,
                   examples = Some {''['a']'', ''['b', 'c']''}\<rparr>)"
proof (intro conjI)
  show "add_sample_value ''properties.tag'' (PList [PStr ''b'', PStr ''c''])
      \<lparr>samples = {''a''}, sample_type = Some T_str, warnings = Map.empty\<rparr>
     = (\<lparr>samples = {''['b', 'c']'', ''['a']''}, sample_type = Some T_list,
         warnings = Map.empty\<rparr>, [])"
    using list_promotion
      [of "\<lparr>samples = {''a''}, sample_type = Some T_str, warnings = Map.empty\<rparr>"
          T_str "PList [PStr ''b'', PStr ''c'']" "''properties.tag''", THEN conjunct1]
    by (simp add: repr_str_def escape_char_def printable_def Let_def)
  show "add_sample_value ''properties.tag'' (PStr ''d'')
      \<lparr>samples = {''['a']''}, sample_type = Some T_list, warnings = Map.empty\<rparr>
     = (\<lparr>samples = {''['d']'', ''['a']''}, sample_type = Some T_list,
         warnings = Map.empty\<rparr>, [])"
    using list_promotion
      [of "\<lparr>samples = {''['a']''}, sample_type = Some T_list, warnings = Map.empty\<rparr>"
          _ _ "''properties.tag''" "PStr ''d''", THEN conjunct2, THEN conjunct1]
    by (simp add: repr_str_def escape_char_def printable_def Let_def)
  show "\<exists>res. fst (get_schema nested_lookup ''idx''
                    [(''idx'', \<lparr>mappings = [(''properties.tag'', PDict [])]\<rparr>)]
                    [properties_hit ''tag'' (PStr ''a''),
                     properties_hit ''tag'' (PList [PStr ''b'', PStr ''c''])]) = Inr res
         \<and> map_of (os_fields res) ''properties.tag'' =
             Some \<lparr>name = ''default'', field_type = ''<class 'list'>'', description = None,
                   examples = Some {''['a']'', ''['b', 'c']''}\<rparr>"
    using list_promotion
      [of _ _ _ _ _ nested_lookup "properties_hit ''tag'' (PStr ''a'')"
          "properties_hit ''tag'' (PList [PStr ''b'', PStr ''c''])"
          "\<lparr>mappings = [(''properties.tag'', PDict [])]\<rparr>" "''idx''" "''idx''" "[]",
       THEN conjunct2, THEN conjunct2]
    by (simp add: lookup_sample_value_def nested_lookup_def properties_hit_def)
qed

lemma add_sample_value_conflict:
  assumes "sample_type st = Some cur" "incompatible cur (type_of v)"
  shows "add_sample_value key v st =
     (st\<lparr>warnings := (if warnings st key = None then (warnings st)(key \<mapsto> True)
                       else warnings st),
         sample_type := Some T_str,
         samples := insert (str v) (samples st)\<rparr>,
      if warnings st key = None then
        [WARNING (''Got multiple sample types for schema field '' @ key @ '': ''
                  @ str_type cur @ '' and '' @ str_type (type_of v) @ ''. Promoting to str.'')]
      else [])"
  using assms by (auto simp add: add_sample_value_def incompatible_def Let_def)

lemma add_sample_value_no_conflict:
  assumes "\<not> (\<exists>cur. sample_type st = Some cur \<and> incompatible cur (type_of v))"
  shows "snd (add_sample_value key v st) = []
     \<and> warnings (fst (add_sample_value key v st)) = warnings st"
  using assms by (auto simp: add_sample_value_def incompatible_def Let_def split: option.splits)

lemma add_sample_value_warned:
  "length (filter is_warning (snd (add_sample_value key v st))) + warned st key
     = warned (fst (add_sample_value key v st)) key"
proof (cases "\<exists>cur. sample_type st = Some cur \<and> incompatible cur (type_of v)")
  case True
  then obtain cur where "sample_type st = Some cur" "incompatible cur (type_of v)" by blast
  from add_sample_value_conflict [OF this, of key] show ?thesis
    by (simp add: warned_def)
next
  case False
  from add_sample_value_no_conflict [OF this, of key] show ?thesis
    by (simp add: warned_def)
qed

lemma warned_le: "warned st key \<le> Suc 0"
  by (simp add: warned_def)

lemma sample_loop_warned:
  "length (filter is_warning (snd (sample_loop lk key hs st))) + warned st key \<le> 1
   \<and> (\<forall>st'. fst (sample_loop lk key hs st) = Inr st' \<longrightarrow>
         length (filter is_warning (snd (sample_loop lk key hs st))) + warned st key
           = warned st' key)"
proof (induction hs arbitrary: st)
  case Nil
  then show ?case by (simp add: warned_le)
next
  case (Cons h hs)
  show ?case
  proof (cases rule: sample_loop_cases [where st=st and lk=lk and key=key and h=h])
    case full
    then show ?thesis by (simp add: sample_loop_full warned_le del: sample_loop.simps)
  next
    case (raise e')
    then show ?thesis by (simp add: sample_loop_raise warned_le del: sample_loop.simps)
  next
    case none
    with Cons.IH [of st] show ?thesis by (simp add: sample_loop_None del: sample_loop.simps)
  next
    case (val v)
    let ?st = "fst (add_sample_value key v st)"
    have eq: "sample_loop lk key (h # hs) st =
        (fst (sample_loop lk key hs ?st),
         snd (add_sample_value key v st) @ snd (sample_loop lk key hs ?st))"
      by (rule sample_loop_value [OF val])
    have step: "length (filter is_warning (snd (add_sample_value key v st))) + warned st key
        = warned ?st key"
      by (rule add_sample_value_warned)
    from Cons.IH [of ?st] step show ?thesis
      unfolding eq fst_conv snd_conv filter_append length_append by auto
  qed
qed

lemma sample_loop_one_warning:
  assumes xs: "fst (sample_loop lk key xs initial_locals) = Inr st"
    and room: "card (samples st) < NUM_EXAMPLE_VALUES"
    and h: "lookup_sample_value lk key h = Inr v" "v \<noteq> PNone"
    and conflict: "sample_type st = Some cur" "incompatible cur (type_of v)"
  shows "length (filter is_warning (snd (sample_loop lk key (xs @ h # ys) initial_locals))) = 1"
proof -
  let ?st = "fst (add_sample_value key v st)"
  let ?n = "\<lambda>l. length (filter is_warning l)"
  have "warned initial_locals key = 0" by (simp add: warned_def initial_locals_def)
  with sample_loop_warned [of lk key xs initial_locals] xs
  have 1: "?n (snd (sample_loop lk key xs initial_locals)) = warned st key" by simp
  have 2: "?n (snd (add_sample_value key v st)) + warned st key = 1"
    and 3: "warned ?st key = 1"
    using add_sample_value_conflict [OF conflict, of key] by (auto simp add: warned_def)
  from sample_loop_warned [of lk key ys ?st] 3
  have 4: "?n (snd (sample_loop lk key ys ?st)) = 0" by simp
  have "snd (sample_loop lk key (xs @ h # ys) initial_locals) =
      snd (sample_loop lk key xs initial_locals) @ snd (add_sample_value key v st)
        @ snd (sample_loop lk key ys ?st)"
    using sample_loop_append [OF xs, of "h # ys"] sample_loop_value [OF room h, of ys]
    by simp
  with 1 2 4 show ?thesis by simp
qed

text \<open>
  Two samples of a field may differ in type outside the two pairs and leave no trace:
  after a list, the type is \<open>list\<close>, the values \<open>1\<close> and \<open>"foo"\<close> are wrapped, and no
  warning is logged.
\<close>

theorem list_first_counterexample:
  "get_schema nested_lookup ''idx''
     [(''idx'', \<lparr>mappings = [(''properties.x'', PDict [])]\<rparr>)]
     [properties_hit ''x'' (PList [PStr ''a'']), properties_hit ''x'' (PInt 1),
      properties_hit ''x'' (PStr ''foo'')]
   = (Inr \<lparr>os_fields =
         [(''text_representation'',
           \<lparr>name = ''default'', field_type = ''<class 'str'>'',
            description = Some ''Can be assumed to have all other details'',
            examples = None\<rparr>),
          (''properties.x'',
           \<lparr>name = ''default'', field_type = ''<class 'list'>'', description = None,
            examples = Some {''['a']'', ''[1]'', ''['foo']''}\<rparr>)]\<rparr>,
      [DEBUG ''Getting schema for index idx'',
       DEBUG ''  Attempting to get samples for key properties.x'',
       DEBUG ''  Got samples for properties.x of type <class 'list'>''])"
  by (simp add: get_schema_def startswith_def endswith_def OpenSearchSchemaField_def
      run_simps insert_commute)

text \<open>
  Claim C4, amended.  When the type seen so far and the type of the value differ,
  neither is \<open>list\<close> and they are not \<open>int\<close> and \<open>float\<close>, the type becomes \<open>str\<close>, the
  samples collected so far stay as they are (they are strings already, and \<open>str\<close> of a
  string is the string), the string of the value joins them, and a warning is logged if
  none was logged for the key before.  The loop over a sample logs at most one warning,
  and exactly one when it meets such a value, whatever follows.  \<open>get_schema\<close> returns
  normally whenever the field-mapping response names an index.  For a sample whose
  lookups of \<open>properties.x\<close> give 1 and \<open>"foo"\<close>, the field has type \<open>str\<close> and the
  examples 1 and foo, and the log holds one warning.
\<close>

theorem type_conflict_demotes:
  "(sample_type st = Some cur \<longrightarrow> incompatible cur (type_of v) \<longrightarrow>
      sample_type (fst (add_sample_value key v st)) = Some T_str
      \<and> samples (fst (add_sample_value key v st)) = insert (str v) (samples st)
      \<and> warnings (fst (add_sample_value key v st)) key \<noteq> None
      \<and> snd (add_sample_value key v st) =
          (if warnings st key = None then
             [WARNING (''Got multiple sample types for schema field '' @ key @ '': ''
                       @ str_type cur @ '' and '' @ str_type (type_of v)
                       @ ''. Promoting to str.'')]
           else []))
   \<and> length (filter is_warning (snd (sample_loop lk key random_sample initial_locals))) \<le> 1
   \<and> (fst (sample_loop lk key xs initial_locals) = Inr st0 \<longrightarrow> card (samples st0) < 5 \<longrightarrow>
      lookup_sample_value lk key h = Inr u \<longrightarrow> u \<noteq> PNone \<longrightarrow>
      sample_type st0 = Some cur0 \<longrightarrow> incompatible cur0 (type_of u) \<longrightarrow>
      length (filter is_warning (snd (sample_loop lk key (xs @ h # ys) initial_locals))) = 1)
   \<and> (schema \<noteq> [] \<longrightarrow> (\<exists>res. fst (get_schema lk index schema random_sample) = Inr res))
   \<and> (lookup_sample_value lk ''properties.x'' h1 = Inr (PInt 1) \<longrightarrow>
      lookup_sample_value lk ''properties.x'' h2 = Inr (PStr ''foo'') \<longrightarrow>
      get_schema lk index ((i, \<lparr>mappings = [(''properties.x'', meta)]\<rparr>) # rest) [h1, h2] =
        (Inr \<lparr>os_fields =
           [(''text_representation'',
             \<lparr>name = ''default'', field_type = ''<class 'str'>'',
              description = Some ''Can be assumed to have all other details'',
              examples = None\<rparr>),
            (''properties.x'',
             \<lparr>name = ''default'', field_type = ''<class 'str'>'', description = None,
              examples = Some {''1'', ''foo''}\<rparr>)]\<rparr>,
         [DEBUG (''Getting schema for index '' @ index),
          DEBUG ''  Attempting to get samples for key properties.x'',
          WARNING (''Got multiple sample types for schema field properties.x: ''
                   @ ''<class 'int'> and <class 'str'>. Promoting to str.''),
          DEBUG ''  Got samples for properties.x of type <class 'str'>'']))"
proof (intro conjI impI)
  assume c: "sample_type st = Some cur" "incompatible cur (type_of v)"
  note eq = add_sample_value_conflict [OF c, of key]
  show "sample_type (fst (add_sample_value key v st)) = Some T_str"
    unfolding eq by simp
  show "samples (fst (add_sample_value key v st)) = insert (str v) (samples st)"
    unfolding eq by simp
  show "warnings (fst (add_sample_value key v st)) key \<noteq> None"
    unfolding eq by auto
  show "snd (add_sample_value key v st) =
          (if warnings st key = None then
             [WARNING (''Got multiple sample types for schema field '' @ key @ '': ''
                       @ str_type cur @ '' and '' @ str_type (type_of v)
                       @ ''. Promoting to str.'')]
           else [])"
    unfolding eq by simp
next
  show "length (filter is_warning (snd (sample_loop lk key random_sample initial_locals))) \<le> 1"
    using sample_loop_warned [of lk key random_sample initial_locals] by simp
next
  assume "fst (sample_loop lk key xs initial_locals) = Inr st0" "card (samples st0) < 5"
    "lookup_sample_value lk key h = Inr u" "u \<noteq> PNone"
    "sample_type st0 = Some cur0" "incompatible cur0 (type_of u)"
  then show "length (filter is_warning (snd (sample_loop lk key (xs @ h # ys) initial_locals))) = 1"
    by (intro sample_loop_one_warning [where st=st0 and v=u and cur=cur0])
       (simp_all add: NUM_EXAMPLE_VALUES_def)
next
  assume "schema \<noteq> []"
  then obtain i m rest where "schema = (i, m) # rest" by (cases schema) auto
  with get_schema_fields [of lk index i m rest random_sample]
  show "\<exists>res. fst (get_schema lk index schema random_sample) = Inr res" by blast
next
  assume h: "lookup_sample_value lk ''properties.x'' h1 = Inr (PInt 1)"
    "lookup_sample_value lk ''properties.x'' h2 = Inr (PStr ''foo'')"
  then show "get_schema lk index ((i, \<lparr>mappings = [(''properties.x'', meta)]\<rparr>) # rest) [h1, h2] =
        (Inr \<lparr>os_fields =
           [(''text_representation'',
             \<lparr>name = ''default'', field_type = ''<class 'str'>'',
              description = Some ''Can be assumed to have all other details'',
              examples = None\<rparr>),
            (''properties.x'',
             \<lparr>name = ''default'', field_type = ''<class 'str'>'', description = None,
              examples = Some {''1'', ''foo''}\<rparr>)]\<rparr>,
         [DEBUG (''Getting schema for index '' @ index),
          DEBUG ''  Attempting to get samples for key properties.x'',
          WARNING (''Got multiple sample types for schema field properties.x: ''
                   @ ''<class 'int'> and <class 'str'>. Promoting to str.''),
          DEBUG ''  Got samples for properties.x of type <class 'str'>''])"
    by (simp add: get_schema_def startswith_def endswith_def OpenSearchSchemaField_def
        add_sample_value_def NUM_EXAMPLE_VALUES_def initial_locals_def str_int_def
        str_nat.simps digit_char_def Let_def insert_commute)
qed

theorem type_conflict_demotes_witness:
  "snd (add_sample_value ''properties.x'' (PStr ''foo'')
          \<lparr>samples = {''1''}, sample_type = Some T_int, warnings = Map.empty\<rparr>)
     = [WARNING (''Got multiple sample types for schema field properties.x: ''
                 @ ''<class 'int'> and <class 'str'>. Promoting to str.'')]
   \<and> length (filter is_warning
        (snd (sample_loop nested_lookup ''properties.x''
               ([properties_hit ''x'' (PInt 1)] @ properties_hit ''x'' (PStr ''foo'')
                  # [properties_hit ''x'' (PInt 2)])
               initial_locals))) = 1
   \<and> get_schema nested_lookup ''idx''
        [(''idx'', \<lparr>mappings = [(''properties.x'', PDict [])]\<rparr>)]
        [properties_hit ''x'' (PInt 1), properties_hit ''x'' (PStr ''foo'')] =
        (Inr \<lparr>os_fields =
           [(''text_representation'',
             \<lparr>name = ''default'', field_type = ''<class 'str'>'',
              description = Some ''Can be assumed to have all other details'',
              examples = None\<rparr>),
            (''properties.x'',
             \<lparr>name = ''default'', field_type = ''<class 'str'>'', description = None,
              examples = Some {''1'', ''foo''}\<rparr>)]\<rparr>,
         [DEBUG ''Getting schema for index idx'',
          DEBUG ''  Attempting to get samples for key properties.x'',
          WARNING (''Got multiple sample types for schema field properties.x: ''
                   @ ''<class 'int'> and <class 'str'>. Promoting to str.''),
          DEBUG ''  Got samples for properties.x of type <class 'str'>''])"
proof (intro conjI)
  let ?st = "\<lparr>samples = {''1''}, sample_type = Some T_int, warnings = Map.empty\<rparr>"
  have inc: "incompatible T_int (type_of (PStr ''foo''))"
    by (simp add: incompatible_def)
  show "snd (add_sample_value ''properties.x'' (PStr ''foo'') ?st)
     = [WARNING (''Got multiple sample types for schema field properties.x: ''
                 @ ''<class 'int'> and <class 'str'>. Promoting to str.'')]"
    using inc type_conflict_demotes
      [where st = ?st and cur = T_int and v = "PStr ''foo''" and key = "''properties.x''",
       THEN conjunct1]
    by simp
  have a: "fst (sample_loop nested_lookup ''properties.x'' [properties_hit ''x'' (PInt 1)]
             initial_locals) = Inr ?st"
    by (simp add: run_simps)
  have b: "lookup_sample_value nested_lookup ''properties.x'' (properties_hit ''x'' (PStr ''foo''))
      = Inr (PStr ''foo'')"
    by (simp add: run_simps)
  show "length (filter is_warning
        (snd (sample_loop nested_lookup ''properties.x''
               ([properties_hit ''x'' (PInt 1)] @ properties_hit ''x'' (PStr ''foo'')
                  # [properties_hit ''x'' (PInt 2)])
               initial_locals))) = 1"
    by (rule type_conflict_demotes
      [where lk = nested_lookup and key = "''properties.x''"
         and xs = "[properties_hit ''x'' (PInt 1)]" and ?st0.0 = ?st
         and h = "properties_hit ''x'' (PStr ''foo'')" and u = "PStr ''foo''"
         and ?cur0.0 = T_int and ys = "[properties_hit ''x'' (PInt 2)]",
       THEN conjunct2, THEN conjunct2, THEN conjunct1, rule_format, OF a _ b _ _ inc])
      simp_all
  show "get_schema nested_lookup ''idx''
        [(''idx'', \<lparr>mappings = [(''properties.x'', PDict [])]\<rparr>)]
        [properties_hit ''x'' (PInt 1), properties_hit ''x'' (PStr ''foo'')] =
        (Inr \<lparr>os_fields =
           [(''text_representation'',
             \<lparr>name = ''default'', field_type = ''<class 'str'>'',
              description = Some ''Can be assumed to have all other details'',
              examples = None\<rparr>),
            (''properties.x'',
             \<lparr>name = ''default'', field_type = ''<class 'str'>'', description = None,
              examples = Some {''1'', ''foo''}\<rparr>)]\<rparr>,
         [DEBUG ''Getting schema for index idx'',
          DEBUG ''  Attempting to get samples for key properties.x'',
          WARNING (''Got multiple sample types for schema field properties.x: ''
                   @ ''<class 'int'> and <class 'str'>. Promoting to str.''),
          DEBUG ''  Got samples for properties.x of type <class 'str'>''])"
    using type_conflict_demotes
      [where lk = nested_lookup and ?h1.0 = "properties_hit ''x'' (PInt 1)"
         and ?h2.0 = "properties_hit ''x'' (PStr ''foo'')" and index = "''idx''"
         and i = "''idx''" and meta = "PDict []" and rest = "[]",
       THEN conjunct2, THEN conjunct2, THEN conjunct2, THEN conjunct2]
    by (simp add: lookup_sample_value_def nested_lookup_def properties_hit_def)
qed

section \<open>Fields with and without an entry\<close>

lemma card_cap_nonempty: "NUM_EXAMPLE_VALUES \<le> card S \<Longrightarrow> S \<noteq> {}"
  by (auto simp: NUM_EXAMPLE_VALUES_def)

lemma sample_loop_nonempty_source:
  "fst (sample_loop lk key hs st) = Inr st' \<Longrightarrow> samples st' \<noteq> {} \<Longrightarrow>
   samples st \<noteq> {} \<or> (\<exists>h \<in> set hs. \<exists>v. lookup_sample_value lk key h = Inr v \<and> v \<noteq> PNone)"
proof (induction hs arbitrary: st)
  case Nil
  then show ?case by simp
next
  case (Cons h hs)
  show ?case
  proof (cases rule: sample_loop_cases [where st=st and lk=lk and key=key and h=h])
    case full
    with Cons.prems show ?thesis by (simp add: sample_loop_full)
  next
    case (raise e')
    with Cons.prems show ?thesis by (simp add: sample_loop_raise)
  next
    case none
    with Cons.prems(1) have "fst (sample_loop lk key hs st) = Inr st'"
      by (simp add: sample_loop_None del: sample_loop.simps)
    from Cons.IH [OF this Cons.prems(2)] show ?thesis by auto
  next
    case (val v)
    then show ?thesis by auto
  qed
qed

lemma sample_loop_resolves:
  "(\<forall>h \<in> set hs. \<exists>v. lookup_sample_value lk key h = Inr v) \<Longrightarrow>
   \<exists>st'. fst (sample_loop lk key hs st) = Inr st'
     \<and> (samples st \<noteq> {} \<or> (\<exists>h \<in> set hs. \<exists>v. lookup_sample_value lk key h = Inr v \<and> v \<noteq> PNone)
          \<longrightarrow> samples st' \<noteq> {})"
proof (induction hs arbitrary: st)
  case Nil
  then show ?case by simp
next
  case (Cons h hs)
  then have rest: "\<forall>h \<in> set hs. \<exists>v. lookup_sample_value lk key h = Inr v" by simp
  show ?case
  proof (cases rule: sample_loop_cases [where st=st and lk=lk and key=key and h=h])
    case full
    then show ?thesis by (auto simp: sample_loop_full card_cap_nonempty simp del: sample_loop.simps)
  next
    case (raise e')
    with Cons.prems show ?thesis by auto
  next
    case none
    from Cons.IH [OF rest, of st] none show ?thesis
      by (auto simp: sample_loop_None simp del: sample_loop.simps)
  next
    case (val v)
    let ?st = "fst (add_sample_value key v st)"
    from Cons.IH [OF rest, of ?st] add_sample_value_nonempty [of key v st] val show ?thesis
      by (auto simp: sample_loop_value simp del: sample_loop.simps)
  qed
qed

lemma sample_loop_fails:
  "finite (samples st) \<Longrightarrow>
   card (samples st)
     + length (filter (\<lambda>x. \<exists>v. lookup_sample_value lk key x = Inr v \<and> v \<noteq> PNone) xs)
     < NUM_EXAMPLE_VALUES \<Longrightarrow>
   lookup_sample_value lk key h = Inl e \<Longrightarrow>
   fst (sample_loop lk key (xs @ h # ys) st) = Inl KeyError"
proof (induction xs arbitrary: st)
  case Nil
  then have "card (samples st) < NUM_EXAMPLE_VALUES" by simp
  from sample_loop_raise [OF this Nil(3), of ys] lookup_sample_value_error [OF Nil(3)]
  show ?case by simp
next
  case (Cons x xs)
  from Cons.prems(2) have room: "card (samples st) < NUM_EXAMPLE_VALUES" by simp
  show ?case
  proof (cases rule: sample_loop_cases [where st=st and lk=lk and key=key and h=x])
    case full
    with room show ?thesis by simp
  next
    case (raise e')
    from sample_loop_raise [OF raise, of "xs @ h # ys"] lookup_sample_value_error [OF raise(2)]
    show ?thesis by simp
  next
    case none
    from Cons.prems(2) none(2)
    have "card (samples st)
        + length (filter (\<lambda>x. \<exists>v. lookup_sample_value lk key x = Inr v \<and> v \<noteq> PNone) xs)
        < NUM_EXAMPLE_VALUES" by simp
    from Cons.IH [OF Cons.prems(1) this Cons.prems(3)] none show ?thesis
      by (simp add: sample_loop_None del: sample_loop.simps)
  next
    case (val v)
    let ?st = "fst (add_sample_value key v st)"
    have f: "finite (samples ?st)" using Cons.prems(1) by (rule add_sample_value_finite)
    from Cons.prems(2) val(2,3) add_sample_value_card [OF Cons.prems(1), of key v]
    have "card (samples ?st)
        + length (filter (\<lambda>x. \<exists>v. lookup_sample_value lk key x = Inr v \<and> v \<noteq> PNone) xs)
        < NUM_EXAMPLE_VALUES" by simp
    from Cons.IH [OF f this Cons.prems(3)] val show ?thesis
      by (simp add: sample_loop_value del: sample_loop.simps)
  qed
qed

lemma sampled_field_iff:
  "sampled_field lk rs key \<noteq> None \<longleftrightarrow>
     (\<exists>st. fst (sample_loop lk key rs initial_locals) = Inr st \<and> samples st \<noteq> {})"
proof (cases "fst (sample_loop lk key rs initial_locals)")
  case (Inl e)
  then show ?thesis by (simp add: sampled_field_def)
next
  case (Inr st)
  have "finite (samples st)"
    using sample_loop_cap [OF _ _ Inr] by (simp add: initial_locals_def)
  then have "card (samples st) > 0 \<longleftrightarrow> samples st \<noteq> {}" by (simp add: card_gt_0_iff)
  with Inr show ?thesis by (simp add: sampled_field_def)
qed

text \<open>
  Claim C5.  Let a key of the listing pass both guards.  \<open>get_schema\<close> returns
  normally, and the key has an entry exactly when the loop over the sample ends without
  an exception and with a sample.  So an entry means that some hit resolves to a value
  other than \<open>None\<close>; a sample in which every hit resolves and some hit resolves to a
  value other than \<open>None\<close> gives an entry; and a hit that cannot be resolved, met before
  five values have been seen, leaves the key without an entry.  Every key of the
  listing that passes the guards gets what its own loop gives, whatever happens to the
  other keys.
\<close>

theorem field_emitted_iff:
  "key \<in> fst ` set (mappings m) \<Longrightarrow> \<not> endswith key ''.keyword'' \<Longrightarrow>
   startswith key ''properties.'' \<Longrightarrow>
   \<exists>res. fst (get_schema lk index ((i, m) # rest) random_sample) = Inr res
     \<and> (map_of (os_fields res) key \<noteq> None \<longleftrightarrow>
          (\<exists>st. fst (sample_loop lk key random_sample initial_locals) = Inr st
                \<and> samples st \<noteq> {}))
     \<and> (map_of (os_fields res) key \<noteq> None \<longrightarrow>
          (\<exists>h \<in> set random_sample. \<exists>v. lookup_sample_value lk key h = Inr v \<and> v \<noteq> PNone))
     \<and> ((\<forall>h \<in> set random_sample. \<exists>v. lookup_sample_value lk key h = Inr v) \<longrightarrow>
          (\<exists>h \<in> set random_sample. \<exists>v. lookup_sample_value lk key h = Inr v \<and> v \<noteq> PNone) \<longrightarrow>
          map_of (os_fields res) key \<noteq> None)
     \<and> (\<forall>xs h ys. random_sample = xs @ h # ys \<longrightarrow>
          lookup_sample_value lk key h = Inl KeyError \<longrightarrow>
          length (filter (\<lambda>x. \<exists>v. lookup_sample_value lk key x = Inr v \<and> v \<noteq> PNone) xs) < 5 \<longrightarrow>
          map_of (os_fields res) key = None)
     \<and> (\<forall>k \<in> fst ` set (mappings m).
          \<not> endswith k ''.keyword'' \<longrightarrow> startswith k ''properties.'' \<longrightarrow>
          map_of (os_fields res) k = sampled_field lk random_sample k)"
proof -
  assume listed: "key \<in> fst ` set (mappings m)"
    and g1: "\<not> endswith key ''.keyword''" and g2: "startswith key ''properties.''"
  from g1 g2 have el: "eligible key" by (simp add: eligible_def)
  from get_schema_fields [of lk index i m rest random_sample] obtain res where
    res: "fst (get_schema lk index ((i, m) # rest) random_sample) = Inr res"
    and mp: "map_of (os_fields res) =
         (\<lambda>k. if k \<in> fst ` set (mappings m) \<and> eligible k \<and> sampled_field lk random_sample k \<noteq> None
              then sampled_field lk random_sample k
              else if k = ''text_representation'' then Some text_representation_field else None)"
    by blast
  have own: "map_of (os_fields res) k = sampled_field lk random_sample k"
    if "k \<in> fst ` set (mappings m)" "eligible k" for k
  proof -
    from that(2) have "k \<noteq> ''text_representation''"
      using text_representation_not_eligible by auto
    with that show ?thesis unfolding mp by auto
  qed
  have key: "map_of (os_fields res) key = sampled_field lk random_sample key"
    using own [OF listed el] .
  have a: "map_of (os_fields res) key \<noteq> None \<longleftrightarrow>
          (\<exists>st. fst (sample_loop lk key random_sample initial_locals) = Inr st
                \<and> samples st \<noteq> {})"
    unfolding key by (rule sampled_field_iff)
  have b: "\<exists>h \<in> set random_sample. \<exists>v. lookup_sample_value lk key h = Inr v \<and> v \<noteq> PNone"
    if "map_of (os_fields res) key \<noteq> None"
  proof -
    from that a obtain st where
      "fst (sample_loop lk key random_sample initial_locals) = Inr st" "samples st \<noteq> {}"
      by blast
    from sample_loop_nonempty_source [OF this] show ?thesis
      by (simp add: initial_locals_def)
  qed
  have c: "map_of (os_fields res) key \<noteq> None"
    if "\<forall>h \<in> set random_sample. \<exists>v. lookup_sample_value lk key h = Inr v"
      "\<exists>h \<in> set random_sample. \<exists>v. lookup_sample_value lk key h = Inr v \<and> v \<noteq> PNone"
    using sample_loop_resolves [OF that(1), of initial_locals] that(2) a by blast
  have d: "map_of (os_fields res) key = None"
    if "random_sample = xs @ h # ys" "lookup_sample_value lk key h = Inl KeyError"
      "length (filter (\<lambda>x. \<exists>v. lookup_sample_value lk key x = Inr v \<and> v \<noteq> PNone) xs) < 5"
    for xs h ys
  proof -
    have "fst (sample_loop lk key (xs @ h # ys) initial_locals) = Inl KeyError"
      using that(3) by (intro sample_loop_fails [OF _ _ that(2)])
        (simp_all add: initial_locals_def NUM_EXAMPLE_VALUES_def)
    then show ?thesis unfolding key that(1) by (simp add: sampled_field_def)
  qed
  have e: "\<forall>k \<in> fst ` set (mappings m).
          \<not> endswith k ''.keyword'' \<longrightarrow> startswith k ''properties.'' \<longrightarrow>
          map_of (os_fields res) k = sampled_field lk random_sample k"
    using own by (simp add: eligible_def)
  from res a b c d e show ?thesis by blast
qed

theorem field_emitted_iff_witness:
  "(\<exists>res. fst (get_schema nested_lookup ''idx''
                [(''idx'', \<lparr>mappings = [(''properties.a'', PDict []),
                                         (''properties.b'', PDict [])]\<rparr>)]
                [properties_hit ''a'' (PInt 1)]) = Inr res
        \<and> map_of (os_fields res) ''properties.a'' \<noteq> None
        \<and> map_of (os_fields res) ''properties.b'' = None)
   \<and> (\<exists>res. fst (get_schema nested_lookup ''idx''
                [(''idx'', \<lparr>mappings = [(''properties.a'', PDict []),
                                         (''properties.b'', PDict [])]\<rparr>)]
                [[(''_source'', PDict [])], properties_hit ''a'' (PInt 1)]) = Inr res
        \<and> map_of (os_fields res) ''properties.a'' = None)"
proof (rule conjI)
  let ?m = "\<lparr>mappings = [(''properties.a'', PDict []), (''properties.b'', PDict [])]\<rparr>"
  let ?rs = "[properties_hit ''a'' (PInt 1)]"
  let ?rs2 = "[[(''_source'', PDict [])], properties_hit ''a'' (PInt 1)]"
  have la: "''properties.a'' \<in> fst ` set (mappings ?m)" by simp
  have lb: "''properties.b'' \<in> fst ` set (mappings ?m)" by simp
  have ga1: "\<not> endswith ''properties.a'' ''.keyword''" by (simp add: endswith_def)
  have ga2: "startswith ''properties.a'' ''properties.''" by (simp add: startswith_def)
  have gb1: "\<not> endswith ''properties.b'' ''.keyword''" by (simp add: endswith_def)
  have gb2: "startswith ''properties.b'' ''properties.''" by (simp add: startswith_def)
  have all: "\<forall>h \<in> set ?rs. \<exists>v. lookup_sample_value nested_lookup ''properties.a'' h = Inr v"
    by (simp add: run_simps)
  have ex: "\<exists>h \<in> set ?rs. \<exists>v. lookup_sample_value nested_lookup ''properties.a'' h = Inr v
      \<and> v \<noteq> PNone"
    by (simp add: run_simps)
  have sfb: "sampled_field nested_lookup ?rs ''properties.b'' = None"
    by (simp add: sampled_field_def run_simps)
  have bad: "lookup_sample_value nested_lookup ''properties.a'' [(''_source'', PDict [])]
      = Inl KeyError"
    by (simp add: run_simps)
  from field_emitted_iff
    [where key = "''properties.a''" and m = ?m and lk = nested_lookup and index = "''idx''"
       and i = "''idx''" and rest = "[]" and random_sample = ?rs, OF la ga1 ga2]
  show "\<exists>res. fst (get_schema nested_lookup ''idx'' [(''idx'', ?m)] ?rs) = Inr res
        \<and> map_of (os_fields res) ''properties.a'' \<noteq> None
        \<and> map_of (os_fields res) ''properties.b'' = None"
  proof (elim exE conjE)
    fix res
    assume r: "fst (get_schema nested_lookup ''idx'' [(''idx'', ?m)] ?rs) = Inr res"
      and c: "(\<forall>h \<in> set ?rs. \<exists>v. lookup_sample_value nested_lookup ''properties.a'' h = Inr v) \<longrightarrow>
          (\<exists>h \<in> set ?rs. \<exists>v. lookup_sample_value nested_lookup ''properties.a'' h = Inr v
              \<and> v \<noteq> PNone) \<longrightarrow>
          map_of (os_fields res) ''properties.a'' \<noteq> None"
      and e: "\<forall>k \<in> fst ` set (mappings ?m).
          \<not> endswith k ''.keyword'' \<longrightarrow> startswith k ''properties.'' \<longrightarrow>
          map_of (os_fields res) k = sampled_field nested_lookup ?rs k"
    have 1: "map_of (os_fields res) ''properties.a'' \<noteq> None"
      by (rule c [THEN mp, THEN mp, OF all ex])
    have 2: "map_of (os_fields res) ''properties.b'' = None"
      using e [rule_format, OF lb gb1 gb2] sfb by simp
    from r 1 2 show ?thesis by blast
  qed
  from field_emitted_iff
    [where key = "''properties.a''" and m = ?m and lk = nested_lookup and index = "''idx''"
       and i = "''idx''" and rest = "[]" and random_sample = ?rs2, OF la ga1 ga2]
  show "\<exists>res. fst (get_schema nested_lookup ''idx'' [(''idx'', ?m)] ?rs2) = Inr res
        \<and> map_of (os_fields res) ''properties.a'' = None"
  proof (elim exE conjE)
    fix res
    assume r: "fst (get_schema nested_lookup ''idx'' [(''idx'', ?m)] ?rs2) = Inr res"
      and d: "\<forall>xs h ys. ?rs2 = xs @ h # ys \<longrightarrow>
          lookup_sample_value nested_lookup ''properties.a'' h = Inl KeyError \<longrightarrow>
          length (filter (\<lambda>x. \<exists>v. lookup_sample_value nested_lookup ''properties.a'' x = Inr v
                                 \<and> v \<noteq> PNone) xs) < 5 \<longrightarrow>
          map_of (os_fields res) ''properties.a'' = None"
    have "map_of (os_fields res) ''properties.a'' = None"
      using d [rule_format, of "[]" "[(''_source'', PDict [])]" "[properties_hit ''a'' (PInt 1)]"]
        bad by simp
    with r show ?thesis by blast
  qed
qed

end
